theory Spec2Isabelle
  imports Main "HOL-Library.Sublist" "HOL-Library.Monad_Syntax"
begin

section \<open>The Qt mapping generator \<^verbatim>\<open>generate_qt_mappings.py\<close>\<close>

text \<open>
  The script scans a Qt include directory, derives symbol and include mapping rules
  from the extensionless class headers it finds, and writes them as an \<^verbatim>\<open>.imp\<close>
  file. This theory embeds the script function by function. Library calls
  (\<^verbatim>\<open>glob.glob\<close>, \<^verbatim>\<open>os.path\<close>, \<^verbatim>\<open>re.findall\<close>, \<^verbatim>\<open>json.dumps\<close>, \<^verbatim>\<open>open\<close>) are modelled
  by executable functions with the semantics of the Python 3 standard library.

  A Python \<^verbatim>\<open>str\<close> is modelled as a \<^typ>\<open>string\<close>; a character stands for the
  code point of the same number (code points below 256).
\<close>

subsection \<open>Characters used by the script\<close>

definition newline :: char where
  "newline = CHR 0x0A"

definition dquote :: char where
  "dquote = CHR 0x22"

definition backslash :: char where
  "backslash = CHR 0x5C"

subsection \<open>The directory tree\<close>

text \<open>
  A directory lists its entries in the order in which the operating system
  enumerates them (\<^verbatim>\<open>os.scandir\<close>). A file yields its text when opened and read
  (\<^verbatim>\<open>Text\<close>, what \<^verbatim>\<open>headerfile.read()\<close> returns: decoded, newlines translated), or
  it cannot be opened or read by the operating system (\<^verbatim>\<open>Unreadable\<close>), or its
  bytes are not text in the encoding of the locale (\<^verbatim>\<open>Undecodable\<close>).
\<close>

datatype file_content = Unreadable | Undecodable | Text string

datatype node = File file_content | Dir "(string \<times> node) list"

text \<open>
  The exceptions that can leave the scan: \<^verbatim>\<open>IOError\<close> (in Python 3 the class
  \<^verbatim>\<open>OSError\<close> with its subclasses \<^verbatim>\<open>FileNotFoundError\<close>, \<^verbatim>\<open>IsADirectoryError\<close>,
  \<^verbatim>\<open>PermissionError\<close>), and \<^verbatim>\<open>UnicodeDecodeError\<close>, which is a \<^verbatim>\<open>ValueError\<close> and not
  of the \<^verbatim>\<open>IOError\<close> class.
\<close>

datatype error = IOError | UnicodeDecodeError

text \<open>
  The file system as the script meets it. \<^verbatim>\<open>main\<close> pastes \<^verbatim>\<open>qt_include_dir\<close> into
  the pattern it gives to \<^verbatim>\<open>glob.glob\<close>, so the path is itself read as a pattern
  when it contains one of the characters \<^verbatim>\<open>*\<close>, \<^verbatim>\<open>?\<close>, \<^verbatim>\<open>[\<close>.
  \<^item> \<open>node_at fs d\<close> is what the path \<open>d\<close>, taken literally, names (\<open>None\<close>: nothing);
  \<^item> \<open>iglob_dirs fs d\<close> are the paths that \<^verbatim>\<open>glob._iglob(d, dironly=True)\<close> yields
    for a path \<open>d\<close> with such characters, in its order. They depend on the file
    system around \<^verbatim>\<open>qt_include_dir\<close> and are taken as given.
\<close>

record file_system =
  node_at :: "string \<Rightarrow> node option"
  iglob_dirs :: "string \<Rightarrow> string list"

text \<open>A path as \<^verbatim>\<open>glob\<close> returns it: the directory the first part of the pattern
  was expanded to, then the components below it.\<close>

type_synonym path = "string list"

text \<open>\<^verbatim>\<open>os.scandir\<close> as \<^verbatim>\<open>glob._iterdir\<close> uses it: an \<^verbatim>\<open>OSError\<close> (the path is
  not a directory) is caught and gives no entries.\<close>

fun listdir :: "node \<Rightarrow> (string \<times> node) list" where
  "listdir (Dir es) = es"
| "listdir (File c) = []"

text \<open>The node some components below a node.\<close>

fun lookup :: "node \<Rightarrow> string list \<Rightarrow> node option" where
  "lookup n [] = Some n"
| "lookup (Dir es) (c # cs) =
     (case map_of es c of None \<Rightarrow> None | Some n \<Rightarrow> lookup n cs)"
| "lookup (File f) (c # cs) = None"

fun is_dir_node :: "node \<Rightarrow> bool" where
  "is_dir_node (Dir es) = True"
| "is_dir_node (File c) = False"

text \<open>The node a path names.\<close>

fun node_of :: "file_system \<Rightarrow> path \<Rightarrow> node option" where
  "node_of fs [] = None"
| "node_of fs (d # cs) =
     (case node_at fs d of None \<Rightarrow> None | Some n \<Rightarrow> lookup n cs)"

text \<open>\<^verbatim>\<open>os.path.isdir(path)\<close>: false when the path does not exist.\<close>

definition os_path_isdir :: "file_system \<Rightarrow> path \<Rightarrow> bool" where
  "os_path_isdir fs p =
     (case node_of fs p of Some n \<Rightarrow> is_dir_node n | None \<Rightarrow> False)"

text \<open>\<^verbatim>\<open>open(path, 'r')\<close> followed by \<^verbatim>\<open>read()\<close>: a missing path
  (\<^verbatim>\<open>FileNotFoundError\<close>), a directory (\<^verbatim>\<open>IsADirectoryError\<close>) and a file the
  operating system does not let the script open or read raise an error of the
  \<^verbatim>\<open>IOError\<close> class; a file whose bytes cannot be decoded raises
  \<^verbatim>\<open>UnicodeDecodeError\<close>.\<close>

definition open_read :: "file_system \<Rightarrow> path \<Rightarrow> error + string" where
  "open_read fs p =
     (case node_of fs p of
        Some (File (Text t)) \<Rightarrow> Inr t
      | Some (File Unreadable) \<Rightarrow> Inl IOError
      | Some (File Undecodable) \<Rightarrow> Inl UnicodeDecodeError
      | Some (Dir es) \<Rightarrow> Inl IOError
      | None \<Rightarrow> Inl IOError)"

text \<open>\<^verbatim>\<open>os.path.basename\<close> and \<^verbatim>\<open>os.path.dirname\<close> on paths with components below
  the directory part.\<close>

definition os_path_basename :: "path \<Rightarrow> string" where
  "os_path_basename p = (if p = [] then [] else last p)"

definition os_path_dirname :: "path \<Rightarrow> path" where
  "os_path_dirname p = butlast p"

subsection \<open>\<^verbatim>\<open>fnmatch\<close> and \<^verbatim>\<open>glob\<close>\<close>

text \<open>
  A shell pattern as \<^verbatim>\<open>fnmatch.translate\<close> reads it: \<^verbatim>\<open>*\<close> matches any run of
  characters, \<^verbatim>\<open>?\<close> one character, \<^verbatim>\<open>[seq]\<close> one character of \<^verbatim>\<open>seq\<close>,
  \<^verbatim>\<open>[!seq]\<close> one character not in \<^verbatim>\<open>seq\<close>, anything else itself. The whole name
  must match.
\<close>

datatype pat = Star | AnyChar | OneOf "char list" | NoneOf "char list" | Lit char

fun fnmatch :: "string \<Rightarrow> pat list \<Rightarrow> bool" where
  "fnmatch [] [] = True"
| "fnmatch (c # cs) [] = False"
| "fnmatch [] (Star # ps) = fnmatch [] ps"
| "fnmatch (c # cs) (Star # ps) = (fnmatch (c # cs) ps \<or> fnmatch cs (Star # ps))"
| "fnmatch [] (p # ps) = False"
| "fnmatch (c # cs) (AnyChar # ps) = fnmatch cs ps"
| "fnmatch (c # cs) (OneOf s # ps) = (c \<in> set s \<and> fnmatch cs ps)"
| "fnmatch (c # cs) (NoneOf s # ps) = (c \<notin> set s \<and> fnmatch cs ps)"
| "fnmatch (c # cs) (Lit d # ps) = (c = d \<and> fnmatch cs ps)"

text \<open>The two components of the script's pattern \<^verbatim>\<open>'**/*[!.h]'\<close>. The script does
  not pass \<^verbatim>\<open>recursive=True\<close>, so \<^verbatim>\<open>**\<close> is two ordinary stars.\<close>

definition pattern_dir :: "pat list" where
  "pattern_dir = [Star, Star]"

definition pattern_base :: "pat list" where
  "pattern_base = [Star, NoneOf ''.h'']"

text \<open>\<^verbatim>\<open>glob._ishidden\<close>: names starting with a dot are skipped, since neither
  pattern component starts with a dot.\<close>

definition ishidden :: "string \<Rightarrow> bool" where
  "ishidden name = (case name of [] \<Rightarrow> False | c # cs \<Rightarrow> c = CHR ''.'')"

text \<open>\<^verbatim>\<open>glob._glob1(dirname, pattern, dironly)\<close>, on the node of \<^verbatim>\<open>dirname\<close>.\<close>

definition glob1 :: "node \<Rightarrow> pat list \<Rightarrow> bool \<Rightarrow> string list" where
  "glob1 d pattern dironly =
     (let names = map fst (filter (\<lambda>(name, n). \<not> dironly \<or> is_dir_node n) (listdir d));
          names = filter (\<lambda>x. \<not> ishidden x) names
      in filter (\<lambda>x. fnmatch x pattern) names)"

text \<open>\<^verbatim>\<open>glob.has_magic\<close>: the path contains a character that makes it a pattern.\<close>

definition has_magic :: "string \<Rightarrow> bool" where
  "has_magic s = (\<exists>c \<in> set s. c = CHR ''*'' \<or> c = CHR ''?'' \<or> c = CHR ''['')"

text \<open>
  The expansion of \<^verbatim>\<open>**/*[!.h]\<close> below one directory: the component \<^verbatim>\<open>**\<close> is
  expanded first (directories only), then the base pattern in each directory
  found. The result is the list of the pairs of names.
\<close>

definition glob_below :: "node \<Rightarrow> string list list" where
  "glob_below root =
     concat (map (\<lambda>dirname.
                    map (\<lambda>name. [dirname, name])
                      (case lookup root [dirname] of
                         None \<Rightarrow> []
                       | Some d \<Rightarrow> glob1 d pattern_base False))
                 (glob1 root pattern_dir True))"

text \<open>
  The directories the part \<^verbatim>\<open>qt_include_dir\<close> of the pattern stands for
  (\<^verbatim>\<open>glob._iglob\<close>: \<^verbatim>\<open>dirs = _iglob(dirname, ..., True)\<close> when \<^verbatim>\<open>has_magic(dirname)\<close>,
  otherwise \<^verbatim>\<open>dirs = [dirname]\<close>).
\<close>

definition root_dirs :: "file_system \<Rightarrow> string \<Rightarrow> string list" where
  "root_dirs fs qt_include_dir =
     (if has_magic qt_include_dir then iglob_dirs fs qt_include_dir else [qt_include_dir])"

text \<open>\<^verbatim>\<open>glob.glob(os.path.join(qt_include_dir, '**/*[!.h]'))\<close>. A directory that does
  not exist or is no directory has no entries.\<close>

definition glob :: "file_system \<Rightarrow> string \<Rightarrow> path list" where
  "glob fs qt_include_dir =
     concat (map (\<lambda>d. map (\<lambda>names. d # names)
                         (case node_at fs d of None \<Rightarrow> [] | Some root \<Rightarrow> glob_below root))
                 (root_dirs fs qt_include_dir))"

subsection \<open>\<^verbatim>\<open>QtHeader\<close>\<close>

text \<open>The class \<^verbatim>\<open>QtHeader\<close>; the field \<^verbatim>\<open>_private_headers\<close> is \<open>None\<close> until the
  file has been read.\<close>

record QtHeader =
  headername :: path
  classname :: string
  modulename :: string
  private_headers :: "string list option"

definition QtHeader_init :: "path \<Rightarrow> QtHeader" where
  "QtHeader_init hn =
     \<lparr>headername = hn,
      classname = os_path_basename hn,
      modulename = os_path_basename (os_path_dirname hn),
      private_headers = None\<rparr>"

subsection \<open>\<^verbatim>\<open>re.findall(r'#include "(.*)\.h"', text)\<close>\<close>

definition include_prefix :: string where
  "include_prefix = ''#include '' @ [dquote]"

definition include_suffix :: string where
  "include_suffix = ''.h'' @ [dquote]"

text \<open>\<open>strip_prefix p s\<close>: the rest of \<open>s\<close> after the literal \<open>p\<close>, if \<open>s\<close> starts
  with it.\<close>

fun strip_prefix :: "string \<Rightarrow> string \<Rightarrow> string option" where
  "strip_prefix [] s = Some s"
| "strip_prefix (p # ps) [] = None"
| "strip_prefix (p # ps) (c # cs) = (if p = c then strip_prefix ps cs else None)"

text \<open>
  The tail \<^verbatim>\<open>(.*)\.h"\<close> of the expression, matched at the start of \<open>s\<close> by
  backtracking: the greedy star first takes one more character (never a newline)
  and tries the rest; only if that fails does it stop here and look for the
  literal \<^verbatim>\<open>.h"\<close>. The result is the captured group.
\<close>

fun match_group :: "string \<Rightarrow> string option" where
  "match_group [] = None"
| "match_group (c # cs) =
     (case (if c = newline then None else match_group cs) of
        Some g \<Rightarrow> Some (c # g)
      | None \<Rightarrow>
          (case strip_prefix include_suffix (c # cs) of
             Some r \<Rightarrow> Some []
           | None \<Rightarrow> None))"

text \<open>The whole expression matched at the start of \<open>s\<close>.\<close>

definition match_here :: "string \<Rightarrow> string option" where
  "match_here s =
     (case strip_prefix include_prefix s of
        None \<Rightarrow> None
      | Some r \<Rightarrow> match_group r)"

text \<open>
  \<^verbatim>\<open>findall\<close> scans from left to right and returns the groups of the
  non-overlapping matches. \<open>findall_from k s\<close> scans \<open>s\<close> where the first \<open>k\<close>
  characters still belong to the previous match and are skipped. A match with
  group \<open>g\<close> is \<open>length include_prefix + length g + length include_suffix\<close>
  characters long.
\<close>

fun findall_from :: "nat \<Rightarrow> string \<Rightarrow> string list" where
  "findall_from k [] = []"
| "findall_from (Suc k) (c # cs) = findall_from k cs"
| "findall_from 0 (c # cs) =
     (case match_here (c # cs) of
        Some g \<Rightarrow>
          g # findall_from (length include_prefix + length g + length include_suffix - 1) cs
      | None \<Rightarrow> findall_from 0 cs)"

definition findall :: "string \<Rightarrow> string list" where
  "findall s = findall_from 0 s"

text \<open>\<^verbatim>\<open>QtHeader.get_private_headers\<close>: returns the list and the header with its
  cache filled.\<close>

definition get_private_headers :: "file_system \<Rightarrow> QtHeader \<Rightarrow> error + (string list \<times> QtHeader)" where
  "get_private_headers fs self =
     (case private_headers self of
        Some included \<Rightarrow> Inr (included, self)
      | None \<Rightarrow>
          (case open_read fs (headername self) of
             Inl e \<Rightarrow> Inl e
           | Inr text \<Rightarrow>
               (let included = findall text
                in Inr (included, self\<lparr>private_headers := Some included\<rparr>))))"

subsection \<open>\<^verbatim>\<open>json.dumps\<close>\<close>

text \<open>The JSON values the script serializes: strings, lists and dictionaries
  (a dictionary keeps its keys in insertion order).\<close>

datatype json = JString string | JArray "json list" | JObject "(string \<times> json) list"

definition hexdigit :: "nat \<Rightarrow> char" where
  "hexdigit n = ''0123456789abcdef'' ! (n mod 16)"

text \<open>\<^verbatim>\<open>'{0:04x}'.format(n)\<close> for \<open>n < 0x10000\<close>.\<close>

definition hex4 :: "nat \<Rightarrow> string" where
  "hex4 n = [hexdigit (n div 4096), hexdigit (n div 256), hexdigit (n div 16), hexdigit n]"

text \<open>The replacement \<^verbatim>\<open>json.encoder.py_encode_basestring_ascii\<close> makes for one
  character (\<^verbatim>\<open>ensure_ascii\<close> is on by default): the short escapes of
  \<^verbatim>\<open>ESCAPE_DCT\<close>, the printable ASCII characters unchanged, anything else as
  \<^verbatim>\<open>\uXXXX\<close>.\<close>

definition escape_char :: "char \<Rightarrow> string" where
  "escape_char c =
     (if c = backslash then [backslash, backslash]
      else if c = dquote then [backslash, dquote]
      else if c = CHR 0x08 then [backslash, CHR ''b'']
      else if c = CHR 0x0C then [backslash, CHR ''f'']
      else if c = newline then [backslash, CHR ''n'']
      else if c = CHR 0x0D then [backslash, CHR ''r'']
      else if c = CHR 0x09 then [backslash, CHR ''t'']
      else if (0x20::nat) \<le> of_char c \<and> (of_char c :: nat) \<le> 0x7E then [c]
      else [backslash, CHR ''u''] @ hex4 (of_char c))"

definition encode_basestring_ascii :: "string \<Rightarrow> string" where
  "encode_basestring_ascii s = [dquote] @ concat (map escape_char s) @ [dquote]"

text \<open>\<^verbatim>\<open>sep.join(xs)\<close>\<close>

fun str_join :: "string \<Rightarrow> string list \<Rightarrow> string" where
  "str_join sep [] = []"
| "str_join sep [x] = x"
| "str_join sep (x # y # ys) = x @ sep @ str_join sep (y # ys)"

text \<open>\<^verbatim>\<open>json.dumps\<close> with its default separators \<^verbatim>\<open>', '\<close> and \<^verbatim>\<open>': '\<close>.\<close>

fun json_dumps :: "json \<Rightarrow> string" where
  "json_dumps (JString s) = encode_basestring_ascii s"
| "json_dumps (JArray xs) = ''['' @ str_join '', '' (map json_dumps xs) @ '']''"
| "json_dumps (JObject kvs) =
     ''{'' @ str_join '', ''
               (map (\<lambda>kv. encode_basestring_ascii (fst kv) @ '': '' @ json_dumps (snd kv)) kvs)
       @ ''}''"

subsection \<open>\<^verbatim>\<open>build_imp_lines\<close>\<close>

type_synonym symbol_rule = "string \<times> string"

type_synonym include_rule = "string \<times> string \<times> string"

definition jsonline :: "json \<Rightarrow> string" where
  "jsonline mapping = ''  '' @ json_dumps mapping"

text \<open>\<^verbatim>\<open>r'@["<](%s/)?%s\.h[">]' % (module, include)\<close>\<close>

definition map_from_pattern :: "string \<Rightarrow> string \<Rightarrow> string" where
  "map_from_pattern module include =
     ''@['' @ [dquote] @ ''<]('' @ module @ ''/)?'' @ include
       @ [backslash] @ ''.h['' @ [dquote] @ ''>]''"

text \<open>The body of the first loop: one symbol rule appended to \<^verbatim>\<open>root\<close>.\<close>

definition append_symbol :: "string list \<Rightarrow> symbol_rule \<Rightarrow> string list" where
  "append_symbol root r =
     (case r of (symbol, header) \<Rightarrow>
        (let map_to = ''<'' @ header @ ''>''
         in root @ [jsonline (JObject [(''symbol'',
                      JArray [JString symbol, JString ''private'',
                              JString map_to, JString ''public''])])]))"

text \<open>The body of the second loop: one include rule appended to \<^verbatim>\<open>root\<close>.\<close>

definition append_include :: "string list \<Rightarrow> include_rule \<Rightarrow> string list" where
  "append_include root r =
     (case r of (module, include, header) \<Rightarrow>
        (let map_from = map_from_pattern module include;
             map_to = ''<'' @ header @ ''>''
         in root @ [jsonline (JObject [(''include'',
                      JArray [JString map_from, JString ''private'',
                              JString map_to, JString ''public''])])]))"

definition build_imp_lines :: "symbol_rule list \<Rightarrow> include_rule list \<Rightarrow> string" where
  "build_imp_lines symbols_map includes_map =
     (let root = [];
          root = foldl append_symbol root symbols_map;
          root = foldl append_include root includes_map;
          lines = ''['' @ [newline];
          lines = lines @ str_join ('','' @ [newline]) root;
          lines = lines @ [newline] @ '']'' @ [newline]
      in lines)"

subsection \<open>\<^verbatim>\<open>add_mapping_rules\<close> and \<^verbatim>\<open>main\<close>\<close>

definition QOBJECT_SYMBOLS :: "string list" where
  "QOBJECT_SYMBOLS =
     [''QObjectList'', ''qFindChildren'', ''qobject_cast'',
      ''QT_NO_NARROWING_CONVERSIONS_IN_CONNECT'', ''Q_CLASSINFO'', ''Q_DISABLE_COPY'',
      ''Q_DISABLE_COPY_MOVE'', ''Q_DISABLE_MOVE'', ''Q_EMIT'', ''Q_ENUM'', ''Q_ENUM_NS'',
      ''Q_FLAG'', ''Q_FLAG_NS'', ''Q_GADGET'', ''Q_INTERFACES'', ''Q_INVOKABLE'',
      ''Q_NAMESPACE'', ''Q_NAMESPACE_EXPORT'', ''Q_OBJECT'', ''Q_PROPERTY'', ''Q_REVISION'',
      ''Q_SET_OBJECT_NAME'', ''Q_SIGNAL'', ''Q_SIGNALS'', ''Q_SLOT'', ''Q_SLOTS'', ''emit'',
      ''slots'', ''signals'', ''SIGNAL'', ''SLOT'']"

text \<open>\<^verbatim>\<open>OUTFILEHDR\<close>, the script being run under its own file name.\<close>

definition OUTFILEHDR :: string where
  "OUTFILEHDR =
     ''# Do not edit! This file was generated by the script '' @ ''generate_qt_mappings.py''
       @ ''.''"

text \<open>
  \<^verbatim>\<open>add_mapping_rules\<close> extends the two lists in place; the model returns them.
  The file is read after the symbol rule has been appended; when reading fails
  the exception leaves the function and the lists are lost with it.
\<close>

definition add_mapping_rules ::
  "file_system \<Rightarrow> QtHeader \<Rightarrow> symbol_rule list \<Rightarrow> include_rule list
     \<Rightarrow> error + (symbol_rule list \<times> include_rule list)" where
  "add_mapping_rules fs header symbols_map includes_map =
     (let symbols_map = symbols_map @ [(classname header, classname header)]
      in case get_private_headers fs header of
           Inl e \<Rightarrow> Inl e
         | Inr (included, header') \<Rightarrow>
             Inr (symbols_map,
                  foldl (\<lambda>includes_map include.
                           includes_map @ [(modulename header, include, classname header)])
                    includes_map included))"

text \<open>The first loop of \<^verbatim>\<open>main\<close>, over the paths \<^verbatim>\<open>glob\<close> returned; the state is
  \<^verbatim>\<open>(symbols_map, includes_map, deferred_headers)\<close>.\<close>

fun scan_headers ::
  "file_system \<Rightarrow> path list \<Rightarrow> symbol_rule list \<times> include_rule list \<times> QtHeader list
     \<Rightarrow> error + (symbol_rule list \<times> include_rule list \<times> QtHeader list)" where
  "scan_headers fs [] st = Inr st"
| "scan_headers fs (p # ps) (symbols_map, includes_map, deferred_headers) =
     (if os_path_isdir fs p then
        scan_headers fs ps (symbols_map, includes_map, deferred_headers)
      else
        (let header = QtHeader_init p in
         if classname header = ''QInternal'' then
           scan_headers fs ps (symbols_map, includes_map, deferred_headers)
         else if classname header = modulename header then
           scan_headers fs ps (symbols_map, includes_map, deferred_headers @ [header])
         else
           (case add_mapping_rules fs header symbols_map includes_map of
              Inl e \<Rightarrow> Inl e
            | Inr (symbols_map', includes_map') \<Rightarrow>
                scan_headers fs ps (symbols_map', includes_map', deferred_headers))))"

text \<open>The second loop of \<^verbatim>\<open>main\<close>, over \<^verbatim>\<open>deferred_headers\<close>.\<close>

fun scan_deferred ::
  "file_system \<Rightarrow> QtHeader list \<Rightarrow> symbol_rule list \<times> include_rule list
     \<Rightarrow> error + (symbol_rule list \<times> include_rule list)" where
  "scan_deferred fs [] st = Inr st"
| "scan_deferred fs (header # hs) (symbols_map, includes_map) =
     (case add_mapping_rules fs header symbols_map includes_map of
        Inl e \<Rightarrow> Inl e
      | Inr st' \<Rightarrow> scan_deferred fs hs st')"

text \<open>\<^verbatim>\<open>main\<close> up to the call of \<^verbatim>\<open>build_imp_lines\<close>: the two rule lists.\<close>

definition main_rules ::
  "file_system \<Rightarrow> string \<Rightarrow> error + (symbol_rule list \<times> include_rule list)" where
  "main_rules fs qt_include_dir =
     (let symbols_map = [];
          includes_map = [];
          deferred_headers = [];
          symbols_map = symbols_map @ [(''qDebug'', ''QtGlobal'')];
          symbols_map = symbols_map @ map (\<lambda>symbol. (symbol, ''QObject'')) QOBJECT_SYMBOLS;
          includes_map = includes_map @ [(''QtCore'', ''qnamespace'', ''Qt'')];
          headers = glob fs qt_include_dir
      in case scan_headers fs headers (symbols_map, includes_map, deferred_headers) of
           Inl e \<Rightarrow> Inl e
         | Inr (symbols_map, includes_map, deferred_headers) \<Rightarrow>
             scan_deferred fs deferred_headers (symbols_map, includes_map))"

text \<open>\<^verbatim>\<open>main\<close>: the text written to \<^verbatim>\<open>output_file\<close> by the two \<^verbatim>\<open>print\<close> calls
  (each adds a newline), or the error that left the scan. The output file is
  opened only after the scan, and is taken to be writable.\<close>

definition main :: "file_system \<Rightarrow> string \<Rightarrow> error + string" where
  "main fs qt_include_dir =
     (case main_rules fs qt_include_dir of
        Inl e \<Rightarrow> Inl e
      | Inr (symbols_map, includes_map) \<Rightarrow>
          (let lines = build_imp_lines symbols_map includes_map
           in Inr (OUTFILEHDR @ [newline] @ lines @ [newline])))"

section \<open>Notions used to state the properties\<close>

text \<open>The header candidates: what \<^verbatim>\<open>glob\<close> returned, without the directories
  (the loop of \<^verbatim>\<open>main\<close> skips them first).\<close>

definition candidates :: "file_system \<Rightarrow> string \<Rightarrow> path list" where
  "candidates fs qt = filter (\<lambda>p. \<not> os_path_isdir fs p) (glob fs qt)"

text \<open>The headers the scan processes: the candidates whose class name is not the
  excluded name, in the order of enumeration.\<close>

definition processed :: "file_system \<Rightarrow> string \<Rightarrow> QtHeader list" where
  "processed fs qt =
     filter (\<lambda>h. classname h \<noteq> ''QInternal'') (map QtHeader_init (candidates fs qt))"

text \<open>The same for an arbitrary list of paths, to reason about the loop.\<close>

definition scanned :: "file_system \<Rightarrow> path list \<Rightarrow> QtHeader list" where
  "scanned fs ps =
     filter (\<lambda>h. classname h \<noteq> ''QInternal'')
       (map QtHeader_init (filter (\<lambda>p. \<not> os_path_isdir fs p) ps))"

text \<open>An umbrella header is named after its module.\<close>

definition umbrella :: "QtHeader \<Rightarrow> bool" where
  "umbrella h = (classname h = modulename h)"

text \<open>Whether reading the file of a header succeeds, and the error it raises
  when it does not.\<close>

definition readable :: "file_system \<Rightarrow> QtHeader \<Rightarrow> bool" where
  "readable fs h = (case open_read fs (headername h) of Inr t \<Rightarrow> True | Inl e \<Rightarrow> False)"

definition read_error :: "file_system \<Rightarrow> QtHeader \<Rightarrow> error" where
  "read_error fs h = (case open_read fs (headername h) of Inr t \<Rightarrow> IOError | Inl e \<Rightarrow> e)"

text \<open>The headers in the order in which the scan reads them: the umbrella headers
  after all others.\<close>

definition reading_order :: "file_system \<Rightarrow> string \<Rightarrow> QtHeader list" where
  "reading_order fs qt =
     filter (\<lambda>h. \<not> umbrella h) (processed fs qt) @ filter umbrella (processed fs qt)"

text \<open>The names extracted from the text of a header, in file order.\<close>

definition extracted :: "file_system \<Rightarrow> QtHeader \<Rightarrow> string list" where
  "extracted fs h = (case open_read fs (headername h) of Inr t \<Rightarrow> findall t | Inl e \<Rightarrow> [])"

text \<open>The rules one header stands for.\<close>

definition symbol_rule_of :: "QtHeader \<Rightarrow> symbol_rule" where
  "symbol_rule_of h = (classname h, classname h)"

definition include_rules_of :: "file_system \<Rightarrow> QtHeader \<Rightarrow> include_rule list" where
  "include_rules_of fs h = map (\<lambda>n. (modulename h, n, classname h)) (extracted fs h)"

text \<open>The manual overrides.\<close>

definition manual_symbols :: "symbol_rule list" where
  "manual_symbols =
     (''qDebug'', ''QtGlobal'') # map (\<lambda>symbol. (symbol, ''QObject'')) QOBJECT_SYMBOLS"

definition manual_includes :: "include_rule list" where
  "manual_includes = [(''QtCore'', ''qnamespace'', ''Qt'')]"

text \<open>A directory tree is well formed when no directory of its first two levels
  lists a name twice.\<close>

definition wf_tree :: "node \<Rightarrow> bool" where
  "wf_tree root =
     (distinct (map fst (listdir root))
      \<and> list_all (\<lambda>e. distinct (map fst (listdir (snd e)))) (listdir root))"

text \<open>
  \<open>one_level root\<close> forgets everything that is not exactly one directory level
  below the root: the content of a file lying directly in the root, and the
  entries of every directory inside a module directory. \<open>one_level_fs\<close> does so
  at every path of the file system.
\<close>

fun blank_entry :: "node \<Rightarrow> node" where
  "blank_entry (Dir es) = Dir []"
| "blank_entry (File c) = File c"

fun blank_module :: "node \<Rightarrow> node" where
  "blank_module (Dir es) = Dir (map (\<lambda>e. (fst e, blank_entry (snd e))) es)"
| "blank_module (File c) = File Unreadable"

fun one_level :: "node \<Rightarrow> node" where
  "one_level (Dir es) = Dir (map (\<lambda>e. (fst e, blank_module (snd e))) es)"
| "one_level (File c) = File c"

definition one_level_fs :: "file_system \<Rightarrow> file_system" where
  "one_level_fs fs = fs\<lparr>node_at := (\<lambda>d. map_option one_level (node_at fs d))\<rparr>"

text \<open>A file system for the examples: the directory \<open>d\<close> holds the tree, no other
  path names anything, and no pattern matches anything.\<close>

definition single_root :: "string \<Rightarrow> node \<Rightarrow> file_system" where
  "single_root d root =
     \<lparr>node_at = (\<lambda>p. if p = d then Some root else None), iglob_dirs = (\<lambda>p. [])\<rparr>"

definition qt5 :: string where
  "qt5 = ''/usr/include/qt5''"

text \<open>An example tree: a module with a class header, the \<^verbatim>\<open>.h\<close> file it includes,
  the umbrella header, an unreadable \<^verbatim>\<open>QInternal\<close> and a subdirectory, and a file
  lying directly in the root.\<close>

definition include_directive :: "string \<Rightarrow> string" where
  "include_directive name = include_prefix @ name @ include_suffix @ [newline]"

definition demo_tree :: node where
  "demo_tree =
     Dir [(''QtCore'',
           Dir [(''QtCore'', File (Text (include_directive ''qglobal''))),
                (''QString'', File (Text (include_directive ''qstring''))),
                (''qstring.h'', File (Text [])),
                (''QInternal'', File Unreadable),
                (''private'', Dir [(''QDeep'', File (Text []))])]),
          (''README'', File (Text ''Qt headers''))]"

definition demo_fs :: file_system where
  "demo_fs = single_root qt5 demo_tree"

text \<open>A tree with a class header that cannot be read.\<close>

definition broken_tree :: node where
  "broken_tree = Dir [(''QtGui'', Dir [(''QColor'', File Unreadable)])]"

definition broken_fs :: file_system where
  "broken_fs = single_root qt5 broken_tree"

text \<open>Two modules with a header of the same class name.\<close>

definition twin_tree :: node where
  "twin_tree =
     Dir [(''QtGui'', Dir [(''QAction'', File (Text []))]),
          (''QtWidgets'', Dir [(''QAction'', File (Text []))])]"


text \<open>The header \<^verbatim>\<open>QtCore/Qt\<close>, which includes \<^verbatim>\<open>qnamespace.h\<close>.\<close>

definition qt_tree :: node where
  "qt_tree = Dir [(''QtCore'', Dir [(''Qt'', File (Text (include_directive ''qnamespace'')))])]"

definition qt_fs :: file_system where
  "qt_fs = single_root qt5 qt_tree"

text \<open>
  A directory whose name has a bracket. Read as a pattern, \<^verbatim>\<open>qt[5]\<close> matches the
  sibling directory \<^verbatim>\<open>qt5\<close> and not the directory itself.
\<close>

definition bracket_fs :: file_system where
  "bracket_fs =
     \<lparr>node_at = (\<lambda>p. if p = ''qt[5]'' then Some demo_tree
                        else if p = ''qt5'' then Some twin_tree else None),
      iglob_dirs = (\<lambda>p. if p = ''qt[5]'' then [''qt5''] else [])\<rparr>"

text \<open>A tree with a header whose bytes cannot be decoded, read after a header
  that cannot be read.\<close>

definition undecodable_fs :: file_system where
  "undecodable_fs =
     single_root qt5
       (Dir [(''QtGui'', Dir [(''QColor'', File Undecodable)])])"

text \<open>Module and class name of a header, and of the header an include rule
  was made for.\<close>

definition header_key :: "QtHeader \<Rightarrow> string \<times> string" where
  "header_key h = (modulename h, classname h)"

definition rule_key :: "include_rule \<Rightarrow> string \<times> string" where
  "rule_key r = (fst r, snd (snd r))"

subsection \<open>The document format, in the words of the specification\<close>

definition quoted :: "string \<Rightarrow> string" where
  "quoted s = [dquote] @ s @ [dquote]"

text \<open>A symbol rule as one compact line: an object with the one key \<^verbatim>\<open>symbol\<close> and
  the array of the symbol name, \<^verbatim>\<open>private\<close>, the target header in angle brackets
  and \<^verbatim>\<open>public\<close>; the two names are JSON strings.\<close>

definition spec_symbol_line :: "symbol_rule \<Rightarrow> string" where
  "spec_symbol_line r =
     ''  {'' @ quoted ''symbol'' @ '': ['' @ encode_basestring_ascii (fst r) @ '', ''
       @ quoted ''private'' @ '', '' @ encode_basestring_ascii (''<'' @ snd r @ ''>'') @ '', ''
       @ quoted ''public'' @ '']}''"

text \<open>An include rule as one compact line, the first element being the match
  pattern.\<close>

definition spec_include_line :: "include_rule \<Rightarrow> string" where
  "spec_include_line r =
     ''  {'' @ quoted ''include'' @ '': [''
       @ encode_basestring_ascii (map_from_pattern (fst r) (fst (snd r))) @ '', ''
       @ quoted ''private'' @ '', '' @ encode_basestring_ascii (''<'' @ snd (snd r) @ ''>'')
       @ '', '' @ quoted ''public'' @ '']}''"

text \<open>The file: the comment line, then the array with the symbol rules before the
  include rules, one per line.\<close>

definition spec_document :: "symbol_rule list \<Rightarrow> include_rule list \<Rightarrow> string" where
  "spec_document sm im =
     OUTFILEHDR @ [newline] @ ''['' @ [newline]
       @ str_join ('','' @ [newline]) (map spec_symbol_line sm @ map spec_include_line im)
       @ [newline] @ '']'' @ [newline] @ [newline]"

subsection \<open>Reading the document back\<close>

text \<open>
  Modelled from the spec: the tool that reads the rule file is not part of the
  script. The specification documents the format as an array of single-key
  objects, one per line; the functions of this subsection read that format.
\<close>

text \<open>Modelled from the spec: the lines of a document.\<close>

fun split_lines :: "string \<Rightarrow> string list" where
  "split_lines [] = [[]]"
| "split_lines (c # cs) =
     (if c = newline then [] # split_lines cs
      else (case split_lines cs of
              l # ls \<Rightarrow> (c # l) # ls
            | [] \<Rightarrow> [[c]]))"

text \<open>Modelled from the spec: the value of a hexadecimal digit of a \<^verbatim>\<open>\uXXXX\<close> escape.\<close>

definition unhexdigit :: "char \<Rightarrow> nat option" where
  "unhexdigit c =
     (let n = of_char c in
      if (0x30::nat) \<le> n \<and> n \<le> 0x39 then Some (n - 0x30)
      else if (0x61::nat) \<le> n \<and> n \<le> 0x66 then Some (n - 0x61 + 10)
      else if (0x41::nat) \<le> n \<and> n \<le> 0x46 then Some (n - 0x41 + 10)
      else None)"

text \<open>Modelled from the spec: the character of a \<^verbatim>\<open>\uXXXX\<close> escape, within the
  characters modelled.\<close>

definition unhex4 :: "char \<Rightarrow> char \<Rightarrow> char \<Rightarrow> char \<Rightarrow> char option" where
  "unhex4 a b c d =
     (case (unhexdigit a, unhexdigit b, unhexdigit c, unhexdigit d) of
        (Some w, Some x, Some y, Some z) \<Rightarrow>
          (let n = w * 4096 + x * 256 + y * 16 + z
           in if n < 256 then Some (char_of n) else None)
      | _ \<Rightarrow> None)"

text \<open>Modelled from the spec: the short escapes of JSON strings.\<close>

definition unescape :: "char \<Rightarrow> char option" where
  "unescape e =
     (if e = dquote then Some dquote
      else if e = backslash then Some backslash
      else if e = CHR ''/'' then Some CHR ''/''
      else if e = CHR ''b'' then Some (CHR 0x08)
      else if e = CHR ''f'' then Some (CHR 0x0C)
      else if e = CHR ''n'' then Some newline
      else if e = CHR ''r'' then Some (CHR 0x0D)
      else if e = CHR ''t'' then Some (CHR 0x09)
      else None)"

definition push_char :: "char \<Rightarrow> (string \<times> string) option \<Rightarrow> (string \<times> string) option" where
  "push_char c r = (case r of None \<Rightarrow> None | Some (s, rest) \<Rightarrow> Some (c # s, rest))"

text \<open>Modelled from the spec: a JSON string after its opening quote; the result is
  the string and the text after the closing quote.\<close>

fun decode_string :: "string \<Rightarrow> (string \<times> string) option" where
  "decode_string [] = None"
| "decode_string (c # cs) =
     (if c = dquote then Some ([], cs)
      else if c = backslash then
        (case cs of
           [] \<Rightarrow> None
         | e # r \<Rightarrow>
             (if e = CHR ''u'' then
                (case r of
                   a # b # x # y # r' \<Rightarrow>
                     (case unhex4 a b x y of
                        None \<Rightarrow> None
                      | Some ch \<Rightarrow> push_char ch (decode_string r'))
                 | _ \<Rightarrow> None)
              else
                (case unescape e of
                   None \<Rightarrow> None
                 | Some ch \<Rightarrow> push_char ch (decode_string r))))
      else push_char c (decode_string cs))"

text \<open>Modelled from the spec: a JSON string at the start of the text.\<close>

definition json_string :: "string \<Rightarrow> (string \<times> string) option" where
  "json_string s = (case s of [] \<Rightarrow> None | c # cs \<Rightarrow> if c = dquote then decode_string cs else None)"

text \<open>Modelled from the spec: the fixed parts of a match pattern, before the module
  name and after the header name.\<close>

definition pattern_head :: string where
  "pattern_head = ''@['' @ [dquote] @ ''<](''"

definition pattern_tail :: string where
  "pattern_tail = [backslash] @ ''.h['' @ [dquote] @ ''>]''"

text \<open>Modelled from the spec: module name and header name of a match pattern; the
  module name ends at the first slash.\<close>

definition parse_pattern :: "string \<Rightarrow> (string \<times> string) option" where
  "parse_pattern p =
     do {
       r \<leftarrow> strip_prefix pattern_head p;
       r' \<leftarrow> strip_prefix ''/)?'' (dropWhile (\<lambda>c. c \<noteq> CHR ''/'') r);
       if length pattern_tail \<le> length r'
          \<and> drop (length r' - length pattern_tail) r' = pattern_tail
       then Some (takeWhile (\<lambda>c. c \<noteq> CHR ''/'') r, take (length r' - length pattern_tail) r')
       else None
     }"

text \<open>Modelled from the spec: the target header without its angle brackets.\<close>

definition strip_angle :: "string \<Rightarrow> string option" where
  "strip_angle s =
     (case s of
        [] \<Rightarrow> None
      | c # cs \<Rightarrow> if c = CHR ''<'' \<and> cs \<noteq> [] \<and> last cs = CHR ''>'' then Some (butlast cs) else None)"

datatype rule = SymbolRule symbol_rule | IncludeRule include_rule

text \<open>Modelled from the spec: the rule of an object with the given key.\<close>

definition make_rule :: "string \<Rightarrow> string \<Rightarrow> string \<Rightarrow> rule option" where
  "make_rule key a h =
     (if key = ''symbol'' then Some (SymbolRule (a, h))
      else if key = ''include'' then
        do { (m, n) \<leftarrow> parse_pattern a; Some (IncludeRule (m, n, h)) }
      else None)"

text \<open>Modelled from the spec: one line of the array, a single-key object whose
  value is an array of four strings, with or without a comma after it.\<close>

definition parse_line :: "string \<Rightarrow> rule option" where
  "parse_line l =
     do {
       r \<leftarrow> strip_prefix ''  {'' l;
       (key, r) \<leftarrow> json_string r;
       r \<leftarrow> strip_prefix '': ['' r;
       (a, r) \<leftarrow> json_string r;
       r \<leftarrow> strip_prefix '', '' r;
       (b, r) \<leftarrow> json_string r;
       r \<leftarrow> strip_prefix '', '' r;
       (c, r) \<leftarrow> json_string r;
       r \<leftarrow> strip_prefix '', '' r;
       (d, r) \<leftarrow> json_string r;
       r \<leftarrow> strip_prefix '']}'' r;
       h \<leftarrow> strip_angle c;
       if (r = [] \<or> r = '','') \<and> b = ''private'' \<and> d = ''public''
       then make_rule key a h else None
     }"

fun symbol_rules :: "rule list \<Rightarrow> symbol_rule list" where
  "symbol_rules [] = []"
| "symbol_rules (SymbolRule r # rs) = r # symbol_rules rs"
| "symbol_rules (IncludeRule r # rs) = symbol_rules rs"

fun include_rules :: "rule list \<Rightarrow> include_rule list" where
  "include_rules [] = []"
| "include_rules (SymbolRule r # rs) = include_rules rs"
| "include_rules (IncludeRule r # rs) = r # include_rules rs"

text \<open>Modelled from the spec: the document produced by \<^verbatim>\<open>build_imp_lines\<close> read as
  the array of single-key objects, giving the symbol rules and the include
  rules in the order of the document.\<close>

definition parse_document :: "string \<Rightarrow> (symbol_rule list \<times> include_rule list) option" where
  "parse_document doc =
     (case split_lines doc of
        [] \<Rightarrow> None
      | first # rest \<Rightarrow>
          if first = ''['' \<and> 2 \<le> length rest \<and> last rest = []
             \<and> last (butlast rest) = '']''
          then
            do {
              rules \<leftarrow> those (map parse_line
                                (filter (\<lambda>l. l \<noteq> []) (butlast (butlast rest))));
              Some (symbol_rules rules, include_rules rules)
            }
          else None)"

text \<open>The line of a rule, and the rules whose module name has no slash.\<close>

fun rule_line :: "rule \<Rightarrow> string" where
  "rule_line (SymbolRule r) = spec_symbol_line r"
| "rule_line (IncludeRule r) = spec_include_line r"

fun no_slash_in_module :: "rule \<Rightarrow> bool" where
  "no_slash_in_module (SymbolRule r) = True"
| "no_slash_in_module (IncludeRule r) = (CHR ''/'' \<notin> set (fst r))"

text \<open>No name of an entry of a scanned directory contains a slash, as in any
  file system.\<close>

definition slash_free_modules :: "file_system \<Rightarrow> string \<Rightarrow> bool" where
  "slash_free_modules fs qt =
     list_all (\<lambda>d. case node_at fs d of
                      None \<Rightarrow> True
                    | Some root \<Rightarrow> list_all (\<lambda>e. CHR ''/'' \<notin> set (fst e)) (listdir root))
       (root_dirs fs qt)"

section \<open>The scan in closed form\<close>

lemma foldl_append_rule:
  "foldl (\<lambda>acc x. acc @ [f x]) acc xs = acc @ map f xs"
  by (induction xs arbitrary: acc) simp_all

lemma add_mapping_rules_fresh:
  "private_headers h = None \<Longrightarrow>
   add_mapping_rules fs h sm im =
     (if readable fs h
      then Inr (sm @ [symbol_rule_of h], im @ include_rules_of fs h)
      else Inl (read_error fs h))"
  by (cases "open_read fs (headername h)")
     (auto simp: add_mapping_rules_def get_private_headers_def readable_def read_error_def
        extracted_def symbol_rule_of_def include_rules_of_def foldl_append_rule Let_def)

lemma QtHeader_init_fresh [simp]: "private_headers (QtHeader_init p) = None"
  by (simp add: QtHeader_init_def)

lemma scanned_Nil [simp]: "scanned fs [] = []"
  by (simp add: scanned_def)

lemma scanned_Cons:
  "scanned fs (p # ps) =
     (if os_path_isdir fs p \<or> classname (QtHeader_init p) = ''QInternal''
      then scanned fs ps else QtHeader_init p # scanned fs ps)"
  by (simp add: scanned_def)

lemma find_append_case:
  "List.find P (xs @ ys) = (case List.find P xs of None \<Rightarrow> List.find P ys | Some x \<Rightarrow> Some x)"
  by (induction xs) simp_all

lemma scan_headers_closed:
  "scan_headers fs ps (sm, im, dh) =
     (case List.find (\<lambda>h. \<not> readable fs h) (filter (\<lambda>h. \<not> umbrella h) (scanned fs ps)) of
        Some h \<Rightarrow> Inl (read_error fs h)
      | None \<Rightarrow>
          Inr (sm @ map symbol_rule_of (filter (\<lambda>h. \<not> umbrella h) (scanned fs ps)),
               im @ concat (map (include_rules_of fs) (filter (\<lambda>h. \<not> umbrella h) (scanned fs ps))),
               dh @ filter umbrella (scanned fs ps)))"
proof (induction ps arbitrary: sm im dh)
  case Nil
  show ?case by simp
next
  case (Cons p ps)
  let ?h = "QtHeader_init p"
  show ?case
  proof (cases "os_path_isdir fs p \<or> classname ?h = ''QInternal''")
    case True
    then have s: "scanned fs (p # ps) = scanned fs ps"
      by (simp add: scanned_Cons)
    have "scan_headers fs (p # ps) (sm, im, dh) = scan_headers fs ps (sm, im, dh)"
      using True by (auto simp: Let_def)
    then show ?thesis
      unfolding s by (simp only: Cons.IH)
  next
    case skip: False
    then have s: "scanned fs (p # ps) = ?h # scanned fs ps"
      by (simp add: scanned_Cons)
    show ?thesis
    proof (cases "umbrella ?h")
      case True
      then have eq: "classname ?h = modulename ?h"
        by (simp add: umbrella_def)
      have n: "filter (\<lambda>h. \<not> umbrella h) (?h # scanned fs ps)
                 = filter (\<lambda>h. \<not> umbrella h) (scanned fs ps)"
        and u: "filter umbrella (?h # scanned fs ps) = ?h # filter umbrella (scanned fs ps)"
        using True by simp_all
      have "scan_headers fs (p # ps) (sm, im, dh) = scan_headers fs ps (sm, im, dh @ [?h])"
        using skip eq by (simp add: Let_def)
      then show ?thesis
        unfolding s n u by (simp add: Cons.IH split: option.split)
    next
      case False
      then have neq: "classname ?h \<noteq> modulename ?h"
        by (simp add: umbrella_def)
      have n: "filter (\<lambda>h. \<not> umbrella h) (?h # scanned fs ps)
                 = ?h # filter (\<lambda>h. \<not> umbrella h) (scanned fs ps)"
        and u: "filter umbrella (?h # scanned fs ps) = filter umbrella (scanned fs ps)"
        using False by simp_all
      show ?thesis
      proof (cases "readable fs ?h")
        case True
        have "scan_headers fs (p # ps) (sm, im, dh)
            = scan_headers fs ps (sm @ [symbol_rule_of ?h], im @ include_rules_of fs ?h, dh)"
          using skip neq True by (simp add: Let_def add_mapping_rules_fresh)
        then show ?thesis
          unfolding s n u using True
          by (simp add: Cons.IH split: option.split)
      next
        case False
        have "scan_headers fs (p # ps) (sm, im, dh) = Inl (read_error fs ?h)"
          using skip neq False by (simp add: Let_def add_mapping_rules_fresh)
        then show ?thesis
          unfolding s n u using False by simp
      qed
    qed
  qed
qed

lemma scan_deferred_closed:
  "list_all (\<lambda>h. private_headers h = None) hs \<Longrightarrow>
   scan_deferred fs hs (sm, im) =
     (case List.find (\<lambda>h. \<not> readable fs h) hs of
        Some h \<Rightarrow> Inl (read_error fs h)
      | None \<Rightarrow> Inr (sm @ map symbol_rule_of hs, im @ concat (map (include_rules_of fs) hs)))"
proof (induction hs arbitrary: sm im)
  case Nil
  show ?case by simp
next
  case (Cons h hs)
  then have fresh: "private_headers h = None"
    and rest: "list_all (\<lambda>h. private_headers h = None) hs"
    by simp_all
  show ?case
  proof (cases "readable fs h")
    case True
    have "scan_deferred fs (h # hs) (sm, im)
        = scan_deferred fs hs (sm @ [symbol_rule_of h], im @ include_rules_of fs h)"
      using True fresh by (simp add: add_mapping_rules_fresh)
    then show ?thesis
      using True by (simp add: Cons.IH [OF rest] split: option.split)
  next
    case False
    then show ?thesis
      using fresh by (simp add: add_mapping_rules_fresh)
  qed
qed

lemma processed_scanned: "processed fs qt = scanned fs (glob fs qt)"
  by (simp add: processed_def scanned_def candidates_def)

lemma scanned_fresh: "list_all (\<lambda>h. private_headers h = None) (filter P (scanned fs ps))"
  by (auto simp: scanned_def list_all_iff)

lemma main_rules_closed:
  "main_rules fs qt =
     (case List.find (\<lambda>h. \<not> readable fs h) (reading_order fs qt) of
        Some h \<Rightarrow> Inl (read_error fs h)
      | None \<Rightarrow>
          Inr (manual_symbols
                 @ map symbol_rule_of (filter (\<lambda>h. \<not> umbrella h) (processed fs qt))
                 @ map symbol_rule_of (filter umbrella (processed fs qt)),
               manual_includes
                 @ concat (map (include_rules_of fs) (filter (\<lambda>h. \<not> umbrella h) (processed fs qt)))
                 @ concat (map (include_rules_of fs) (filter umbrella (processed fs qt)))))"
proof -
  let ?N = "filter (\<lambda>h. \<not> umbrella h) (scanned fs (glob fs qt))"
  show ?thesis
  proof (cases "List.find (\<lambda>h. \<not> readable fs h) ?N")
    case None
    then show ?thesis
      unfolding main_rules_def Let_def reading_order_def processed_scanned find_append_case
      by (simp add: scan_headers_closed scan_deferred_closed [OF scanned_fresh]
            manual_symbols_def manual_includes_def split: option.splits)
  next
    case (Some h)
    then show ?thesis
      unfolding main_rules_def Let_def reading_order_def processed_scanned find_append_case
      by (simp add: scan_headers_closed)
  qed
qed

lemma main_rules_Inr:
  "main_rules fs qt = Inr (sm, im) \<Longrightarrow>
     sm = manual_symbols
            @ map symbol_rule_of (filter (\<lambda>h. \<not> umbrella h) (processed fs qt))
            @ map symbol_rule_of (filter umbrella (processed fs qt))
     \<and> im = manual_includes
            @ concat (map (include_rules_of fs) (filter (\<lambda>h. \<not> umbrella h) (processed fs qt)))
            @ concat (map (include_rules_of fs) (filter umbrella (processed fs qt)))"
  by (simp add: main_rules_closed split: option.splits)

lemma set_reading_order: "set (reading_order fs qt) = set (processed fs qt)"
  by (auto simp: reading_order_def)

lemma main_rules_fails:
  assumes "h \<in> set (processed fs qt)" and "\<not> readable fs h"
  shows "\<exists>h'. List.find (\<lambda>h. \<not> readable fs h) (reading_order fs qt) = Some h'
           \<and> h' \<in> set (processed fs qt) \<and> \<not> readable fs h'
           \<and> main_rules fs qt = Inl (read_error fs h')"
proof -
  have "List.find (\<lambda>h. \<not> readable fs h) (reading_order fs qt) \<noteq> None"
    using assms by (auto simp: find_None_iff set_reading_order)
  then obtain h' where f: "List.find (\<lambda>h. \<not> readable fs h) (reading_order fs qt) = Some h'"
    by blast
  then have "h' \<in> set (reading_order fs qt)" and "\<not> readable fs h'"
    by (auto simp: find_Some_iff)
  then show ?thesis
    using f by (auto simp: main_rules_closed set_reading_order)
qed

lemma manual_symbols_no_QInternal: "(''QInternal'', ''QInternal'') \<notin> set manual_symbols"
  by (simp add: manual_symbols_def QOBJECT_SYMBOLS_def)

lemma processed_classname: "h \<in> set (processed fs qt) \<Longrightarrow> classname h \<noteq> ''QInternal''"
  by (simp add: processed_def)

lemma processed_fresh: "h \<in> set (processed fs qt) \<Longrightarrow> private_headers h = None"
  by (auto simp: processed_def)

lemma demo_fs_rules:
  "main_rules demo_fs qt5 =
     Inr (manual_symbols @ [(''QString'', ''QString''), (''QtCore'', ''QtCore'')],
          [(''QtCore'', ''qnamespace'', ''Qt''), (''QtCore'', ''qstring'', ''QString''),
           (''QtCore'', ''qglobal'', ''QtCore'')])"
  by code_simp

section \<open>The expansion of the pattern\<close>

lemma fnmatch_Star: "fnmatch n [Star]"
  by (induction n) simp_all

lemma fnmatch_pattern_dir: "fnmatch n pattern_dir"
  by (induction n) (simp_all add: pattern_dir_def fnmatch_Star)

lemma fnmatch_NoneOf: "fnmatch n [NoneOf s] \<longleftrightarrow> (\<exists>c. n = [c] \<and> c \<notin> set s)"
  by (cases n; cases "tl n") auto

lemma fnmatch_Star_NoneOf: "fnmatch n [Star, NoneOf s] \<longleftrightarrow> n \<noteq> [] \<and> last n \<notin> set s"
  by (induction n) (auto simp: fnmatch_NoneOf)

lemma fnmatch_pattern_base:
  "fnmatch n pattern_base \<longleftrightarrow> n \<noteq> [] \<and> last n \<noteq> CHR ''.'' \<and> last n \<noteq> CHR ''h''"
  by (auto simp: pattern_base_def fnmatch_Star_NoneOf)

lemma glob1_iff:
  "n \<in> set (glob1 d pattern dironly) \<longleftrightarrow>
     (\<exists>x. (n, x) \<in> set (listdir d) \<and> (dironly \<longrightarrow> is_dir_node x))
     \<and> \<not> ishidden n \<and> fnmatch n pattern"
  by (force simp: glob1_def Let_def)

lemma glob_in_dir_iff:
  "n \<in> set (case lookup root [m] of None \<Rightarrow> [] | Some d \<Rightarrow> glob1 d pattern_base False)
     \<longleftrightarrow> (\<exists>d. lookup root [m] = Some d \<and> n \<in> set (glob1 d pattern_base False))"
  by (cases "lookup root [m]") simp_all

lemma glob_below_iff:
  "p \<in> set (glob_below root) \<longleftrightarrow>
     (\<exists>m n d. p = [m, n] \<and> m \<in> set (glob1 root pattern_dir True)
        \<and> lookup root [m] = Some d \<and> n \<in> set (glob1 d pattern_base False))"
proof
  assume "p \<in> set (glob_below root)"
  then obtain m where m: "m \<in> set (glob1 root pattern_dir True)"
    and p: "p \<in> set (map (\<lambda>name. [m, name])
                 (case lookup root [m] of None \<Rightarrow> [] | Some d \<Rightarrow> glob1 d pattern_base False))"
    unfolding glob_below_def by auto
  from p obtain n where "p = [m, n]"
    and "n \<in> set (case lookup root [m] of None \<Rightarrow> [] | Some d \<Rightarrow> glob1 d pattern_base False)"
    by auto
  with m show "\<exists>m n d. p = [m, n] \<and> m \<in> set (glob1 root pattern_dir True)
        \<and> lookup root [m] = Some d \<and> n \<in> set (glob1 d pattern_base False)"
    unfolding glob_in_dir_iff by blast
next
  assume "\<exists>m n d. p = [m, n] \<and> m \<in> set (glob1 root pattern_dir True)
        \<and> lookup root [m] = Some d \<and> n \<in> set (glob1 d pattern_base False)"
  then obtain m n d where p: "p = [m, n]" and m: "m \<in> set (glob1 root pattern_dir True)"
    and d: "lookup root [m] = Some d" and n: "n \<in> set (glob1 d pattern_base False)"
    by blast
  show "p \<in> set (glob_below root)"
    unfolding glob_below_def p using m n d by force
qed

lemma lookup_one: "lookup root [m] = map_of (listdir root) m"
  by (cases root) (auto split: option.splits)

lemma lookup_two:
  "lookup root [m, n] = (case map_of (listdir root) m of None \<Rightarrow> None | Some d \<Rightarrow> map_of (listdir d) n)"
  by (cases root) (auto split: option.splits simp: lookup_one)

lemma glob_below_length: "p \<in> set (glob_below root) \<Longrightarrow> length p = 2"
  by (auto simp: glob_below_iff)


lemma glob_iff:
  "p \<in> set (glob fs qt) \<longleftrightarrow>
     (\<exists>d root names. p = d # names \<and> d \<in> set (root_dirs fs qt)
        \<and> node_at fs d = Some root \<and> names \<in> set (glob_below root))"
proof
  assume "p \<in> set (glob fs qt)"
  then obtain d where d: "d \<in> set (root_dirs fs qt)"
    and p: "p \<in> set (map (\<lambda>names. d # names)
                 (case node_at fs d of None \<Rightarrow> [] | Some root \<Rightarrow> glob_below root))"
    unfolding glob_def by auto
  then show "\<exists>d root names. p = d # names \<and> d \<in> set (root_dirs fs qt)
        \<and> node_at fs d = Some root \<and> names \<in> set (glob_below root)"
    by (cases "node_at fs d") auto
next
  assume "\<exists>d root names. p = d # names \<and> d \<in> set (root_dirs fs qt)
        \<and> node_at fs d = Some root \<and> names \<in> set (glob_below root)"
  then obtain d root names where "p = d # names" "d \<in> set (root_dirs fs qt)"
    "node_at fs d = Some root" "names \<in> set (glob_below root)"
    by blast
  then show "p \<in> set (glob fs qt)"
    unfolding glob_def by force
qed

lemma glob_path:
  "p \<in> set (glob fs qt) \<Longrightarrow>
   \<exists>d root m n. p = [d, m, n] \<and> d \<in> set (root_dirs fs qt) \<and> node_at fs d = Some root
     \<and> [m, n] \<in> set (glob_below root)"
  unfolding glob_iff by (auto dest: glob_below_length simp: glob_below_iff)

lemma root_dirs_literal: "\<not> has_magic qt \<Longrightarrow> root_dirs fs qt = [qt]"
  by (simp add: root_dirs_def)

lemma glob_single_root:
  "root_dirs fs qt = [d] \<Longrightarrow> node_at fs d = Some root \<Longrightarrow>
   glob fs qt = map (\<lambda>names. d # names) (glob_below root)"
  by (simp add: glob_def)

lemma node_of_three:
  "node_at fs d = Some root \<Longrightarrow> node_of fs (d # names) = lookup root names"
  by simp

section \<open>Ordering of the rules\<close>

text \<open>
  Claim C4. In the output, the rules of every umbrella header (class name equal to
  module name) come after the rules of every header whose class name differs
  from its module name: a successful scan returns the manual rules, then the
  rules of the non-umbrella headers in enumeration order, then those of the
  umbrella headers, in both lists.
\<close>

theorem umbrella_rules_last:
  "main_rules fs qt = Inr (sm, im) \<Longrightarrow>
     sm = manual_symbols
            @ map symbol_rule_of (filter (\<lambda>h. \<not> umbrella h) (processed fs qt))
            @ map symbol_rule_of (filter umbrella (processed fs qt))
     \<and> im = manual_includes
            @ concat (map (include_rules_of fs) (filter (\<lambda>h. \<not> umbrella h) (processed fs qt)))
            @ concat (map (include_rules_of fs) (filter umbrella (processed fs qt)))"
  by (rule main_rules_Inr)

text \<open>In the example tree the umbrella header \<^verbatim>\<open>QtCore/QtCore\<close> is enumerated first
  and its rules come last.\<close>

theorem umbrella_rules_last_witness:
  "main_rules demo_fs qt5 =
     Inr (manual_symbols @ [(''QString'', ''QString''), (''QtCore'', ''QtCore'')],
          [(''QtCore'', ''qnamespace'', ''Qt''), (''QtCore'', ''qstring'', ''QString''),
           (''QtCore'', ''qglobal'', ''QtCore'')])
   \<and> processed demo_fs qt5
       = [QtHeader_init [qt5, ''QtCore'', ''QtCore''], QtHeader_init [qt5, ''QtCore'', ''QString'']]
   \<and> manual_symbols @ [(''QString'', ''QString''), (''QtCore'', ''QtCore'')]
       = manual_symbols
           @ map symbol_rule_of (filter (\<lambda>h. \<not> umbrella h) (processed demo_fs qt5))
           @ map symbol_rule_of (filter umbrella (processed demo_fs qt5))
   \<and> [(''QtCore'', ''qnamespace'', ''Qt''), (''QtCore'', ''qstring'', ''QString''),
       (''QtCore'', ''qglobal'', ''QtCore'')]
       = manual_includes
           @ concat (map (include_rules_of demo_fs)
                       (filter (\<lambda>h. \<not> umbrella h) (processed demo_fs qt5)))
           @ concat (map (include_rules_of demo_fs)
                       (filter umbrella (processed demo_fs qt5)))"
proof -
  have run: "main_rules demo_fs qt5 =
     Inr (manual_symbols @ [(''QString'', ''QString''), (''QtCore'', ''QtCore'')],
          [(''QtCore'', ''qnamespace'', ''Qt''), (''QtCore'', ''qstring'', ''QString''),
           (''QtCore'', ''qglobal'', ''QtCore'')])"
    by (rule demo_fs_rules)
  have hs: "processed demo_fs qt5
       = [QtHeader_init [qt5, ''QtCore'', ''QtCore''], QtHeader_init [qt5, ''QtCore'', ''QString'']]"
    by code_simp
  from umbrella_rules_last [OF run] run hs show ?thesis
    by blast
qed

text \<open>
  Claim C5. The manual override rules come first in both lists, before any
  rule derived from the scan: the symbol rules start with the rule for
  \<^verbatim>\<open>qDebug\<close> and one rule per entry of \<^verbatim>\<open>QOBJECT_SYMBOLS\<close>, the include rules start
  with the rule for \<^verbatim>\<open>qnamespace\<close>, and every rule after them is a rule of a
  processed header.
\<close>

theorem manual_rules_first:
  "main_rules fs qt = Inr (sm, im) \<Longrightarrow>
     (\<exists>ds. sm = [(''qDebug'', ''QtGlobal'')]
                  @ map (\<lambda>symbol. (symbol, ''QObject'')) QOBJECT_SYMBOLS @ ds
           \<and> (\<forall>r \<in> set ds. \<exists>h \<in> set (processed fs qt). r = symbol_rule_of h))
     \<and> (\<exists>di. im = (''QtCore'', ''qnamespace'', ''Qt'') # di
           \<and> (\<forall>r \<in> set di. \<exists>h \<in> set (processed fs qt). r \<in> set (include_rules_of fs h)))"
proof -
  assume "main_rules fs qt = Inr (sm, im)"
  note eq = main_rules_Inr [OF this]
  let ?N = "filter (\<lambda>h. \<not> umbrella h) (processed fs qt)"
  let ?U = "filter umbrella (processed fs qt)"
  let ?ds = "map symbol_rule_of ?N @ map symbol_rule_of ?U"
  let ?di = "concat (map (include_rules_of fs) ?N) @ concat (map (include_rules_of fs) ?U)"
  have "sm = [(''qDebug'', ''QtGlobal'')]
                  @ map (\<lambda>symbol. (symbol, ''QObject'')) QOBJECT_SYMBOLS @ ?ds"
    using eq by (simp add: manual_symbols_def)
  moreover have "\<forall>r \<in> set ?ds. \<exists>h \<in> set (processed fs qt). r = symbol_rule_of h"
    by auto
  moreover have "im = (''QtCore'', ''qnamespace'', ''Qt'') # ?di"
    using eq by (simp add: manual_includes_def)
  moreover have "\<forall>r \<in> set ?di. \<exists>h \<in> set (processed fs qt). r \<in> set (include_rules_of fs h)"
    by auto
  ultimately show ?thesis by blast
qed

theorem manual_rules_first_witness:
  "main_rules demo_fs qt5 =
     Inr (manual_symbols @ [(''QString'', ''QString''), (''QtCore'', ''QtCore'')],
          [(''QtCore'', ''qnamespace'', ''Qt''), (''QtCore'', ''qstring'', ''QString''),
           (''QtCore'', ''qglobal'', ''QtCore'')])
   \<and> (\<exists>ds. manual_symbols @ [(''QString'', ''QString''), (''QtCore'', ''QtCore'')]
             = [(''qDebug'', ''QtGlobal'')]
                  @ map (\<lambda>symbol. (symbol, ''QObject'')) QOBJECT_SYMBOLS @ ds
           \<and> (\<forall>r \<in> set ds. \<exists>h \<in> set (processed demo_fs qt5). r = symbol_rule_of h))
   \<and> (\<exists>di. [(''QtCore'', ''qnamespace'', ''Qt''), (''QtCore'', ''qstring'', ''QString''),
             (''QtCore'', ''qglobal'', ''QtCore'')]
             = (''QtCore'', ''qnamespace'', ''Qt'') # di
           \<and> (\<forall>r \<in> set di. \<exists>h \<in> set (processed demo_fs qt5).
                  r \<in> set (include_rules_of demo_fs h)))"
  using manual_rules_first [OF demo_fs_rules] demo_fs_rules
  by blast

section \<open>The excluded header\<close>

text \<open>
  Claim C7. A discovered header whose class name is \<^verbatim>\<open>QInternal\<close> contributes no
  rule: its symbol rule is not among the symbol rules of the output, and no
  include rule of the output has its module name and its class name.
\<close>

theorem qinternal_no_rule:
  "main_rules fs qt = Inr (sm, im) \<Longrightarrow> p \<in> set (candidates fs qt) \<Longrightarrow>
   classname (QtHeader_init p) = ''QInternal'' \<Longrightarrow>
     symbol_rule_of (QtHeader_init p) \<notin> set sm
     \<and> (\<forall>n. (modulename (QtHeader_init p), n, classname (QtHeader_init p)) \<notin> set im)"
proof -
  assume run: "main_rules fs qt = Inr (sm, im)"
    and q: "classname (QtHeader_init p) = ''QInternal''"
  note eq = main_rules_Inr [OF run]
  have "symbol_rule_of (QtHeader_init p) \<notin> set sm"
    using eq manual_symbols_no_QInternal q
    by (auto simp: symbol_rule_of_def dest: processed_classname)
  moreover have "(m, n, ''QInternal'') \<notin> set im" for m n
    using eq by (auto simp: manual_includes_def include_rules_of_def dest: processed_classname)
  ultimately show ?thesis using q by simp
qed

text \<open>The example tree has the header \<^verbatim>\<open>QtCore/QInternal\<close>; it cannot even be read,
  and the scan succeeds without a rule for it.\<close>

theorem qinternal_no_rule_witness:
  "main_rules demo_fs qt5 =
     Inr (manual_symbols @ [(''QString'', ''QString''), (''QtCore'', ''QtCore'')],
          [(''QtCore'', ''qnamespace'', ''Qt''), (''QtCore'', ''qstring'', ''QString''),
           (''QtCore'', ''qglobal'', ''QtCore'')])
   \<and> [qt5, ''QtCore'', ''QInternal''] \<in> set (candidates demo_fs qt5)
   \<and> classname (QtHeader_init [qt5, ''QtCore'', ''QInternal'']) = ''QInternal''
   \<and> symbol_rule_of (QtHeader_init [qt5, ''QtCore'', ''QInternal''])
       \<notin> set (manual_symbols @ [(''QString'', ''QString''), (''QtCore'', ''QtCore'')])
   \<and> (\<forall>n. (modulename (QtHeader_init [qt5, ''QtCore'', ''QInternal'']), n,
            classname (QtHeader_init [qt5, ''QtCore'', ''QInternal'']))
          \<notin> set [(''QtCore'', ''qnamespace'', ''Qt''), (''QtCore'', ''qstring'', ''QString''),
                  (''QtCore'', ''qglobal'', ''QtCore'')])"
proof -
  have cand: "[qt5, ''QtCore'', ''QInternal''] \<in> set (candidates demo_fs qt5)"
    by code_simp
  have cls: "classname (QtHeader_init [qt5, ''QtCore'', ''QInternal'']) = ''QInternal''"
    by code_simp
  from qinternal_no_rule [OF demo_fs_rules cand cls] demo_fs_rules cand cls
  show ?thesis by blast
qed

section \<open>Files that cannot be read\<close>

lemma not_readable_iff: "\<not> readable fs h \<longleftrightarrow> open_read fs (headername h) = Inl (read_error fs h)"
  by (cases "open_read fs (headername h)") (simp_all add: readable_def read_error_def)

lemma open_read_error_kind:
  "open_read fs p = Inl e \<Longrightarrow>
   e = (if node_of fs p = Some (File Undecodable) then UnicodeDecodeError else IOError)"
  by (auto simp: open_read_def split: option.splits node.splits file_content.splits)

text \<open>
  Claim C9, as stated: if the file of a discovered header cannot be opened or
  read, the extraction fails with an error of the \<^verbatim>\<open>IOError\<close> class that leaves the
  scan. The example tree has the discovered header \<^verbatim>\<open>QtCore/QInternal\<close>, which
  cannot be read: the scan skips it before it opens any file and succeeds. And
  a file that cannot be decoded raises \<^verbatim>\<open>UnicodeDecodeError\<close>, which is not of the
  \<^verbatim>\<open>IOError\<close> class.
\<close>

theorem skipped_header_never_opened:
  "[qt5, ''QtCore'', ''QInternal''] \<in> set (candidates demo_fs qt5)
   \<and> open_read demo_fs [qt5, ''QtCore'', ''QInternal''] = Inl IOError
   \<and> main_rules demo_fs qt5 =
       Inr (manual_symbols @ [(''QString'', ''QString''), (''QtCore'', ''QtCore'')],
            [(''QtCore'', ''qnamespace'', ''Qt''), (''QtCore'', ''qstring'', ''QString''),
             (''QtCore'', ''qglobal'', ''QtCore'')])
   \<and> QtHeader_init [qt5, ''QtGui'', ''QColor''] \<in> set (processed undecodable_fs qt5)
   \<and> main undecodable_fs qt5 = Inl UnicodeDecodeError"
  by code_simp

text \<open>
  Claim C9, amended. If the file of a header the scan processes (a discovered
  entry that is no directory and whose class name is not \<^verbatim>\<open>QInternal\<close>) cannot be
  opened, read or decoded, the extraction of its included headers fails: with
  \<^verbatim>\<open>UnicodeDecodeError\<close> when the file cannot be decoded, with \<^verbatim>\<open>IOError\<close>
  otherwise. Nothing catches the error: \<^verbatim>\<open>main\<close> returns the error of the first
  header that fails in reading order and produces no document; the error is
  \<^verbatim>\<open>IOError\<close> when no processed header fails to decode.
\<close>

theorem unreadable_header_propagates:
  "h \<in> set (processed fs qt) \<Longrightarrow> open_read fs (headername h) = Inl e \<Longrightarrow>
     get_private_headers fs h = Inl e
     \<and> e = (if node_of fs (headername h) = Some (File Undecodable)
            then UnicodeDecodeError else IOError)
     \<and> (\<exists>h' \<in> set (processed fs qt). \<exists>e'.
            List.find (\<lambda>h. \<not> readable fs h) (reading_order fs qt) = Some h'
            \<and> open_read fs (headername h') = Inl e'
            \<and> main_rules fs qt = Inl e' \<and> main fs qt = Inl e')
     \<and> ((\<forall>h' \<in> set (processed fs qt). open_read fs (headername h') \<noteq> Inl UnicodeDecodeError)
          \<longrightarrow> main_rules fs qt = Inl IOError \<and> main fs qt = Inl IOError)"
proof -
  assume h: "h \<in> set (processed fs qt)" and bad: "open_read fs (headername h) = Inl e"
  have g: "get_private_headers fs h = Inl e"
    using bad processed_fresh [OF h] by (simp add: get_private_headers_def)
  note kind = open_read_error_kind [OF bad]
  have "\<not> readable fs h"
    using bad by (simp add: readable_def)
  from main_rules_fails [OF h this] obtain h'
    where f: "List.find (\<lambda>h. \<not> readable fs h) (reading_order fs qt) = Some h'"
      and h': "h' \<in> set (processed fs qt)" and nr: "\<not> readable fs h'"
      and m: "main_rules fs qt = Inl (read_error fs h')"
    by blast
  from nr have o: "open_read fs (headername h') = Inl (read_error fs h')"
    by (simp add: not_readable_iff)
  from m have mm: "main fs qt = Inl (read_error fs h')"
    by (simp add: main_def)
  have first: "\<exists>h' \<in> set (processed fs qt). \<exists>e'.
            List.find (\<lambda>h. \<not> readable fs h) (reading_order fs qt) = Some h'
            \<and> open_read fs (headername h') = Inl e'
            \<and> main_rules fs qt = Inl e' \<and> main fs qt = Inl e'"
    using f h' o m mm by blast
  have io: "main_rules fs qt = Inl IOError \<and> main fs qt = Inl IOError"
    if "\<forall>h' \<in> set (processed fs qt). open_read fs (headername h') \<noteq> Inl UnicodeDecodeError"
  proof -
    from that h' o have "read_error fs h' \<noteq> UnicodeDecodeError"
      by auto
    then have "read_error fs h' = IOError"
      by (cases "read_error fs h'") simp_all
    with m mm show ?thesis by simp
  qed
  from g kind first io show ?thesis
    by blast
qed

theorem unreadable_header_propagates_witness:
  "QtHeader_init [qt5, ''QtGui'', ''QColor''] \<in> set (processed broken_fs qt5)
   \<and> open_read broken_fs (headername (QtHeader_init [qt5, ''QtGui'', ''QColor''])) = Inl IOError
   \<and> get_private_headers broken_fs (QtHeader_init [qt5, ''QtGui'', ''QColor'']) = Inl IOError
   \<and> main_rules broken_fs qt5 = Inl IOError \<and> main broken_fs qt5 = Inl IOError"
proof -
  have h: "QtHeader_init [qt5, ''QtGui'', ''QColor''] \<in> set (processed broken_fs qt5)"
    by code_simp
  have bad: "open_read broken_fs (headername (QtHeader_init [qt5, ''QtGui'', ''QColor'']))
               = Inl IOError"
    by code_simp
  have all: "\<forall>h' \<in> set (processed broken_fs qt5).
               open_read broken_fs (headername h') \<noteq> Inl UnicodeDecodeError"
    by code_simp
  from unreadable_header_propagates [OF h bad] h bad all show ?thesis
    by blast
qed

section \<open>Header discovery\<close>



lemma is_dir_blank_module [simp]: "is_dir_node (blank_module d) = is_dir_node d"
  by (cases d) simp_all

lemma is_dir_blank_entry [simp]: "is_dir_node (blank_entry d) = is_dir_node d"
  by (cases d) simp_all








lemma length_two: "length p = 2 \<Longrightarrow> \<exists>m n. p = [m, n]"
  by (cases p; cases "tl p") auto

lemma node_at_one_level_fs [simp]:
  "node_at (one_level_fs fs) d = map_option one_level (node_at fs d)"
  by (simp add: one_level_fs_def)

lemma root_dirs_one_level_fs [simp]: "root_dirs (one_level_fs fs) qt = root_dirs fs qt"
  by (simp add: root_dirs_def one_level_fs_def)












text \<open>
  A root path with a pattern character is read as a pattern: at the path
  \<^verbatim>\<open>qt[5]\<close> the script scans the sibling directory \<^verbatim>\<open>qt5\<close> and not the directory
  of that name.
\<close>

lemma pattern_root_scans_matches:
  "has_magic ''qt[5]''
   \<and> glob bracket_fs ''qt[5]''
       = [[''qt5'', ''QtGui'', ''QAction''], [''qt5'', ''QtWidgets'', ''QAction'']]"
  by code_simp

lemma not_suffix_dot_h: "n \<noteq> [] \<Longrightarrow> last n \<noteq> CHR ''h'' \<Longrightarrow> \<not> suffix ''.h'' n"
  by (auto simp: suffix_def)

lemma map_of_first: "n \<in> fst ` set es \<Longrightarrow> \<exists>x. map_of es n = Some x \<and> (n, x) \<in> set es"
  by (metis map_of_SomeD map_of_eq_None_iff not_Some_eq)

lemma candidate_is_file:
  assumes g: "names \<in> set (glob_below root)"
    and nd: "\<not> (case lookup root names of Some x \<Rightarrow> is_dir_node x | None \<Rightarrow> False)"
  shows "\<exists>m n es c. names = [m, n] \<and> (m, Dir es) \<in> set (listdir root) \<and> (n, File c) \<in> set es
           \<and> \<not> ishidden m \<and> \<not> ishidden n \<and> \<not> suffix ''.h'' n"
proof -
  from g obtain m n d where p: "names = [m, n]" and m: "m \<in> set (glob1 root pattern_dir True)"
    and d: "lookup root [m] = Some d" and n: "n \<in> set (glob1 d pattern_base False)"
    unfolding glob_below_iff by blast
  from d have md: "map_of (listdir root) m = Some d"
    by (simp add: lookup_one)
  from n obtain y where y: "(n, y) \<in> set (listdir d)" and hn: "\<not> ishidden n"
    and fm: "fnmatch n pattern_base"
    unfolding glob1_iff by blast
  from y obtain es where es: "d = Dir es"
    by (cases d) auto
  from y have "n \<in> fst ` set (listdir d)" by force
  from map_of_first [OF this] obtain x where x: "map_of (listdir d) n = Some x"
    and xin: "(n, x) \<in> set (listdir d)" by blast
  from nd have "\<not> is_dir_node x"
    by (simp add: p lookup_two md x)
  then obtain c where c: "x = File c" by (cases x) auto
  have "(m, Dir es) \<in> set (listdir root)"
    using md es by (simp add: map_of_SomeD)
  moreover have "(n, File c) \<in> set es"
    using xin es c by simp
  moreover have "\<not> ishidden m" using m unfolding glob1_iff by blast
  moreover have "\<not> suffix ''.h'' n"
    using fm by (simp add: fnmatch_pattern_base not_suffix_dot_h)
  ultimately show ?thesis using p hn by blast
qed

lemma file_is_candidate:
  assumes wf: "wf_tree root"
    and m: "(m, Dir es) \<in> set (listdir root)" and n: "(n, File c) \<in> set es"
    and hid: "\<not> ishidden m" "\<not> ishidden n"
    and last: "n \<noteq> []" "last n \<noteq> CHR ''.''" "last n \<noteq> CHR ''h''"
  shows "[m, n] \<in> set (glob_below root) \<and> lookup root [m, n] = Some (File c)"
proof -
  from wf m have md: "map_of (listdir root) m = Some (Dir es)"
    by (simp add: wf_tree_def)
  from wf m have "distinct (map fst es)"
    by (force simp: wf_tree_def list_all_iff)
  with n have nx: "map_of es n = Some (File c)"
    by simp
  have "m \<in> set (glob1 root pattern_dir True)"
    unfolding glob1_iff using m hid by (auto simp: fnmatch_pattern_dir)
  moreover have "lookup root [m] = Some (Dir es)"
    using md by (simp add: lookup_one)
  moreover have "n \<in> set (glob1 (Dir es) pattern_base False)"
    unfolding glob1_iff using n hid last by (auto simp: fnmatch_pattern_base)
  ultimately have "[m, n] \<in> set (glob_below root)"
    unfolding glob_below_iff by blast
  moreover have "lookup root [m, n] = Some (File c)"
    by (simp add: lookup_two md nx)
  ultimately show ?thesis by simp
qed

lemma candidates_single_root:
  assumes "root_dirs fs qt = [d]" and "node_at fs d = Some root"
  shows "p \<in> set (candidates fs qt) \<longleftrightarrow>
     (\<exists>names. p = d # names \<and> names \<in> set (glob_below root)
        \<and> \<not> (case lookup root names of Some x \<Rightarrow> is_dir_node x | None \<Rightarrow> False))"
  using assms by (auto simp: candidates_def glob_single_root os_path_isdir_def)

text \<open>
  Claim C3, as stated: the candidates are the non-directory entries of the tree
  whose name does not end in \<^verbatim>\<open>.h\<close>. The file \<^verbatim>\<open>README\<close> lying directly in the root
  of the example tree is a file of the tree, its name does not end in \<^verbatim>\<open>.h\<close>, and
  it is not a candidate.
\<close>

theorem root_file_not_candidate:
  "node_of demo_fs [qt5, ''README''] = Some (File (Text ''Qt headers''))
   \<and> \<not> suffix ''.h'' ''README''
   \<and> [qt5, ''README''] \<notin> set (candidates demo_fs qt5)"
  by code_simp

text \<open>
  Claim C3, amended. Let the root path have none of the characters \<^verbatim>\<open>*\<close>, \<^verbatim>\<open>?\<close>,
  \<^verbatim>\<open>[\<close> and name a well-formed directory tree. Then every candidate is a file
  exactly one level below the root, in a directory of the root, neither name
  starting with a dot, and its name does not end in \<^verbatim>\<open>.h\<close>; and every such file
  whose name ends in a character other than \<^verbatim>\<open>.\<close> and \<^verbatim>\<open>h\<close> is a candidate.
\<close>

theorem candidates_one_level_files:
  "\<not> has_magic qt \<Longrightarrow> node_at fs qt = Some root \<Longrightarrow> wf_tree root \<Longrightarrow>
     (\<forall>p \<in> set (candidates fs qt). \<exists>m n es c.
          p = [qt, m, n] \<and> (m, Dir es) \<in> set (listdir root) \<and> (n, File c) \<in> set es
          \<and> \<not> ishidden m \<and> \<not> ishidden n \<and> \<not> suffix ''.h'' n)
     \<and> (\<forall>m n es c.
          (m, Dir es) \<in> set (listdir root) \<and> (n, File c) \<in> set es
          \<and> \<not> ishidden m \<and> \<not> ishidden n
          \<and> n \<noteq> [] \<and> last n \<noteq> CHR ''.'' \<and> last n \<noteq> CHR ''h''
          \<longrightarrow> [qt, m, n] \<in> set (candidates fs qt))"
proof -
  assume lit: "\<not> has_magic qt" and root: "node_at fs qt = Some root" and wf: "wf_tree root"
  note iff = candidates_single_root [OF root_dirs_literal [OF lit] root]
  have "\<exists>m n es c.
          p = [qt, m, n] \<and> (m, Dir es) \<in> set (listdir root) \<and> (n, File c) \<in> set es
          \<and> \<not> ishidden m \<and> \<not> ishidden n \<and> \<not> suffix ''.h'' n"
    if "p \<in> set (candidates fs qt)" for p
  proof -
    from that obtain names where p: "p = qt # names" and g: "names \<in> set (glob_below root)"
      and nd: "\<not> (case lookup root names of Some x \<Rightarrow> is_dir_node x | None \<Rightarrow> False)"
      unfolding iff by blast
    from candidate_is_file [OF g nd] p show ?thesis by blast
  qed
  moreover have "[qt, m, n] \<in> set (candidates fs qt)"
    if "(m, Dir es) \<in> set (listdir root) \<and> (n, File c) \<in> set es
          \<and> \<not> ishidden m \<and> \<not> ishidden n
          \<and> n \<noteq> [] \<and> last n \<noteq> CHR ''.'' \<and> last n \<noteq> CHR ''h''" for m n es c
  proof -
    from that file_is_candidate [OF wf, of m es n c]
    have "[m, n] \<in> set (glob_below root)" and "lookup root [m, n] = Some (File c)"
      by blast+
    then show ?thesis
      unfolding iff by simp
  qed
  ultimately show ?thesis by blast
qed

theorem candidates_one_level_files_witness:
  "\<not> has_magic qt5 \<and> node_at demo_fs qt5 = Some demo_tree \<and> wf_tree demo_tree
   \<and> [qt5, ''QtCore'', ''QString''] \<in> set (candidates demo_fs qt5)
   \<and> (\<exists>m n es c. [qt5, ''QtCore'', ''QString''] = [qt5, m, n]
         \<and> (m, Dir es) \<in> set (listdir demo_tree)
         \<and> (n, File c) \<in> set es \<and> \<not> ishidden m \<and> \<not> ishidden n \<and> \<not> suffix ''.h'' n)
   \<and> node_at broken_fs qt5 = Some broken_tree \<and> wf_tree broken_tree
   \<and> (''QtGui'', Dir [(''QColor'', File Unreadable)]) \<in> set (listdir broken_tree)
   \<and> (''QColor'', File Unreadable) \<in> set [(''QColor'', File Unreadable)]
   \<and> \<not> ishidden ''QtGui'' \<and> \<not> ishidden ''QColor''
   \<and> ''QColor'' \<noteq> [] \<and> last ''QColor'' \<noteq> CHR ''.'' \<and> last ''QColor'' \<noteq> CHR ''h''
   \<and> [qt5, ''QtGui'', ''QColor''] \<in> set (candidates broken_fs qt5)"
proof -
  have lit: "\<not> has_magic qt5"
    by code_simp
  have root: "node_at demo_fs qt5 = Some demo_tree"
    by (simp add: demo_fs_def single_root_def)
  have wf: "wf_tree demo_tree"
    by code_simp
  have cand: "[qt5, ''QtCore'', ''QString''] \<in> set (candidates demo_fs qt5)"
    by code_simp
  have root': "node_at broken_fs qt5 = Some broken_tree"
    by (simp add: broken_fs_def single_root_def)
  have wf': "wf_tree broken_tree"
    by code_simp
  have hyp: "(''QtGui'', Dir [(''QColor'', File Unreadable)]) \<in> set (listdir broken_tree)
             \<and> (''QColor'', File Unreadable) \<in> set [(''QColor'', File Unreadable)]
             \<and> \<not> ishidden ''QtGui'' \<and> \<not> ishidden ''QColor''
             \<and> ''QColor'' \<noteq> [] \<and> last ''QColor'' \<noteq> CHR ''.'' \<and> last ''QColor'' \<noteq> CHR ''h''"
    by (simp add: ishidden_def broken_tree_def)
  from candidates_one_level_files [OF lit root wf] cand
    candidates_one_level_files [OF lit root' wf'] lit root wf root' wf' hyp
  show ?thesis
    by blast
qed

section \<open>Rules derived from a header\<close>









lemma distinct_glob1:
  "distinct (map fst (listdir d)) \<Longrightarrow> distinct (glob1 d pattern dironly)"
  by (simp add: glob1_def Let_def distinct_map_filter)

lemma distinct_pairs:
  "distinct ms \<Longrightarrow> (\<And>m. m \<in> set ms \<Longrightarrow> distinct (g m)) \<Longrightarrow>
   distinct (concat (map (\<lambda>m. map (\<lambda>n. [m, n]) (g m)) ms))"
proof (induction ms)
  case Nil
  show ?case by simp
next
  case (Cons m ms)
  have "distinct (map (\<lambda>n. [m, n]) (g m))"
    using Cons.prems(2) [of m] by (simp add: distinct_map inj_on_def)
  moreover have "distinct (concat (map (\<lambda>m. map (\<lambda>n. [m, n]) (g m)) ms))"
    using Cons by simp
  moreover have "set (map (\<lambda>n. [m, n]) (g m))
      \<inter> set (concat (map (\<lambda>m. map (\<lambda>n. [m, n]) (g m)) ms)) = {}"
    using Cons.prems(1) by auto
  ultimately show ?case by simp
qed

lemma distinct_glob_below: "wf_tree root \<Longrightarrow> distinct (glob_below root)"
proof -
  assume wf: "wf_tree root"
  have inner: "distinct (case lookup root [m] of None \<Rightarrow> [] | Some d \<Rightarrow> glob1 d pattern_base False)"
    for m
  proof (cases "lookup root [m]")
    case None
    then show ?thesis by simp
  next
    case (Some d)
    then have "(m, d) \<in> set (listdir root)"
      by (simp add: lookup_one map_of_SomeD)
    with wf have "distinct (map fst (listdir d))"
      by (force simp: wf_tree_def list_all_iff)
    then show ?thesis using Some by (simp add: distinct_glob1)
  qed
  have "distinct (glob1 root pattern_dir True)"
    using wf by (simp add: wf_tree_def distinct_glob1)
  then show ?thesis
    unfolding glob_below_def by (rule distinct_pairs) (rule inner)
qed

lemma distinct_glob:
  "root_dirs fs qt = [d] \<Longrightarrow> node_at fs d = Some root \<Longrightarrow> wf_tree root \<Longrightarrow>
   distinct (glob fs qt)"
  by (simp add: glob_single_root distinct_map distinct_glob_below)

lemma header_key_init: "header_key (QtHeader_init [d, m, n]) = (m, n)"
  by (simp add: header_key_def QtHeader_init_def os_path_basename_def os_path_dirname_def)

lemma distinct_header_keys:
  assumes one: "root_dirs fs qt = [d]" and root: "node_at fs d = Some root"
    and wf: "wf_tree root"
  shows "distinct (map header_key (processed fs qt))"
proof -
  have "inj_on (header_key \<circ> QtHeader_init) (set (glob fs qt))"
  proof (rule inj_onI)
    fix p q
    assume p: "p \<in> set (glob fs qt)" and q: "q \<in> set (glob fs qt)"
      and eq: "(header_key \<circ> QtHeader_init) p = (header_key \<circ> QtHeader_init) q"
    from glob_path [OF p] one obtain m n where "p = [d, m, n]" by auto
    moreover from glob_path [OF q] one obtain m' n' where "q = [d, m', n']" by auto
    ultimately show "p = q"
      using eq by (simp add: header_key_init)
  qed
  then have "distinct (map (header_key \<circ> QtHeader_init) (glob fs qt))"
    using distinct_glob [OF one root wf] by (simp add: distinct_map)
  then have "distinct (map (header_key \<circ> QtHeader_init)
                     (filter (\<lambda>p. \<not> os_path_isdir fs p) (glob fs qt)))"
    by (rule distinct_map_filter)
  then have "distinct (map header_key (map QtHeader_init (candidates fs qt)))"
    by (simp only: candidates_def map_map)
  then show ?thesis
    unfolding processed_def by (rule distinct_map_filter)
qed

lemma rule_key_include_rules_of:
  "r \<in> set (include_rules_of fs h) \<Longrightarrow> rule_key r = header_key h"
  by (auto simp: include_rules_of_def rule_key_def header_key_def)

lemma filter_own_rules:
  "filter (\<lambda>r. rule_key r = k) (include_rules_of fs h)
     = (if header_key h = k then include_rules_of fs h else [])"
  by (auto simp: filter_empty_conv dest: rule_key_include_rules_of intro: filter_True)

lemma filter_rules_of_header:
  "distinct (map header_key hs) \<Longrightarrow> h \<in> set hs \<Longrightarrow>
   filter (\<lambda>r. rule_key r = header_key h) (concat (map (include_rules_of fs) hs))
     = include_rules_of fs h"
proof (induction hs)
  case Nil
  then show ?case by simp
next
  case (Cons a hs)
  show ?case
  proof (cases "a = h")
    case True
    have "filter (\<lambda>r. rule_key r = header_key h) (concat (map (include_rules_of fs) hs)) = []"
      using Cons.prems(1) True
      by (auto simp: filter_empty_conv dest!: rule_key_include_rules_of)
    then show ?thesis using True by (simp add: filter_own_rules)
  next
    case False
    with Cons.prems have "h \<in> set hs" and "header_key a \<noteq> header_key h"
      by auto
    then show ?thesis using Cons by (simp add: filter_own_rules)
  qed
qed

lemma distinct_keys_reordered:
  assumes "distinct (map header_key hs)"
  shows "distinct (map header_key (filter (\<lambda>h. \<not> umbrella h) hs @ filter umbrella hs))"
proof -
  have "distinct (map header_key (filter (\<lambda>h. \<not> umbrella h) hs))"
    and "distinct (map header_key (filter umbrella hs))"
    using assms by (rule distinct_map_filter)+
  moreover have "header_key a \<noteq> header_key b" if "\<not> umbrella a" and "umbrella b" for a b
    using that by (auto simp: header_key_def umbrella_def)
  then have "set (map header_key (filter (\<lambda>h. \<not> umbrella h) hs))
      \<inter> set (map header_key (filter umbrella hs)) = {}"
    by fastforce
  ultimately show ?thesis
    by (simp only: map_append distinct_append)
qed

lemma count_list_filter: "P x \<Longrightarrow> count_list (filter P xs) x = count_list xs x"
  by (induction xs) auto

lemma count_list_map_inj: "inj f \<Longrightarrow> count_list (map f xs) (f x) = count_list xs x"
  by (induction xs) (auto dest: injD)


lemma strip_prefix_append: "strip_prefix p (p @ s) = Some s"
  by (induction p) simp_all

lemma match_group_suffix_newline: "match_group (include_suffix @ newline # rest) = Some []"
  by (simp add: include_suffix_def newline_def dquote_def)

lemma match_group_directive:
  "newline \<notin> set n \<Longrightarrow> match_group (n @ include_suffix @ newline # rest) = Some n"
proof (induction n)
  case Nil
  show ?case using match_group_suffix_newline by simp
next
  case (Cons c cs)
  then show ?case by auto
qed

lemma match_here_directive:
  "newline \<notin> set n \<Longrightarrow> match_here (include_directive n @ rest) = Some n"
  by (simp add: match_here_def include_directive_def strip_prefix_append match_group_directive)

lemma findall_from_skip: "findall_from (length xs) (xs @ ys) = findall_from 0 ys"
  by (induction xs) simp_all

lemma match_here_newline: "match_here (newline # s) = None"
  by (simp add: match_here_def include_prefix_def newline_def)

lemma findall_from_directive:
  assumes "newline \<notin> set n"
  shows "findall_from 0 (include_directive n @ rest) = n # findall_from 0 rest"
proof -
  obtain c cs where d: "include_prefix @ n @ include_suffix = c # cs"
    by (cases "include_prefix @ n @ include_suffix") (simp_all add: include_prefix_def)
  then have len: "length cs = length include_prefix + length n + length include_suffix - 1"
    by (metis add.assoc diff_Suc_1 length_Cons length_append)
  have full: "include_directive n @ rest = c # cs @ newline # rest"
    using d by (simp add: include_directive_def)
  have "match_here (c # cs @ newline # rest) = Some n"
    using match_here_directive [OF assms, of rest] by (simp only: full)
  then have "findall_from 0 (c # cs @ newline # rest)
      = n # findall_from (length cs) (cs @ newline # rest)"
    by (simp add: len)
  also have "\<dots> = n # findall_from 0 (newline # rest)"
    by (simp only: findall_from_skip)
  also have "\<dots> = n # findall_from 0 rest"
    by (simp add: match_here_newline)
  finally show ?thesis by (simp only: full)
qed

lemma findall_directives:
  "\<forall>n \<in> set ns. newline \<notin> set n \<Longrightarrow> findall (concat (map include_directive ns)) = ns"
  unfolding findall_def
  by (induction ns) (simp_all add: findall_from_directive)

lemma findall_angle_ignored:
  "findall (''#include <qglobal.h>'' @ [newline] @ include_directive ''qstring_p'') = [''qstring_p'']"
  by code_simp

text \<open>
  Claim C1, as stated: for every name extracted from a processed header the
  output contains exactly one include rule. The header \<^verbatim>\<open>QtCore/Qt\<close> includes
  \<^verbatim>\<open>qnamespace.h\<close>; the rule made for it is the manual override once more, so the
  output has it twice.
\<close>

theorem manual_rule_twice:
  "QtHeader_init [qt5, ''QtCore'', ''Qt''] \<in> set (processed qt_fs qt5)
   \<and> ''qnamespace'' \<in> set (extracted qt_fs (QtHeader_init [qt5, ''QtCore'', ''Qt'']))
   \<and> main_rules qt_fs qt5
       = Inr (manual_symbols @ [(''Qt'', ''Qt'')],
              [(''QtCore'', ''qnamespace'', ''Qt''), (''QtCore'', ''qnamespace'', ''Qt'')])
   \<and> count_list [(''QtCore'', ''qnamespace'', ''Qt''), (''QtCore'', ''qnamespace'', ''Qt'')]
        (modulename (QtHeader_init [qt5, ''QtCore'', ''Qt'']), ''qnamespace'',
         classname (QtHeader_init [qt5, ''QtCore'', ''Qt''])) = 2"
  by code_simp

text \<open>
  Claim C1, amended. When the root path stands for one directory (as every
  root path without the characters \<^verbatim>\<open>*\<close>, \<^verbatim>\<open>?\<close>, \<^verbatim>\<open>[\<close> does) and the tree below it
  is well formed, for every processed header \<open>H\<close> the include rules with the
  module name and class name of \<open>H\<close> among the rules derived from the scan are
  the rules \<open>(H.modulename, n, H.classname)\<close> for the
  names \<open>n\<close> extracted from the text of \<open>H\<close>, in file order, one per occurrence.
  So the output contains the rule for \<open>n\<close> as often as \<open>n\<close> is extracted from \<open>H\<close>,
  and once more when it is the manual override.
\<close>

theorem include_rules_per_header:
  "root_dirs fs qt = [d] \<Longrightarrow> node_at fs d = Some root \<Longrightarrow> wf_tree root \<Longrightarrow>
   main_rules fs qt = Inr (sm, im) \<Longrightarrow> h \<in> set (processed fs qt) \<Longrightarrow>
     filter (\<lambda>r. fst r = modulename h \<and> snd (snd r) = classname h) (tl im)
       = map (\<lambda>n. (modulename h, n, classname h)) (extracted fs h)
     \<and> (\<forall>n. count_list im (modulename h, n, classname h)
            = count_list (extracted fs h) n
              + (if (modulename h, n, classname h) = (''QtCore'', ''qnamespace'', ''Qt'')
                 then 1 else 0))"
proof -
  assume one: "root_dirs fs qt = [d]" and root: "node_at fs d = Some root"
    and wf: "wf_tree root" and run: "main_rules fs qt = Inr (sm, im)"
    and h: "h \<in> set (processed fs qt)"
  let ?hs = "filter (\<lambda>h. \<not> umbrella h) (processed fs qt) @ filter umbrella (processed fs qt)"
  let ?rest = "concat (map (include_rules_of fs) ?hs)"
  let ?own = "\<lambda>r. fst r = modulename h \<and> snd (snd r) = classname h"
  have own: "?own = (\<lambda>r. rule_key r = header_key h)"
    by (auto simp: rule_key_def header_key_def)
  from main_rules_Inr [OF run]
  have im: "im = (''QtCore'', ''qnamespace'', ''Qt'') # ?rest"
    by (simp add: manual_includes_def)
  have "h \<in> set ?hs" using h by auto
  with distinct_keys_reordered [OF distinct_header_keys [OF one root wf]]
  have flt: "filter ?own ?rest = include_rules_of fs h"
    unfolding own by (rule filter_rules_of_header)
  have cnt: "count_list ?rest (modulename h, n, classname h) = count_list (extracted fs h) n"
    for n
  proof -
    have "count_list ?rest (modulename h, n, classname h)
        = count_list (filter ?own ?rest) (modulename h, n, classname h)"
      by (simp add: count_list_filter)
    also have "\<dots> = count_list (map (\<lambda>n. (modulename h, n, classname h)) (extracted fs h))
                      (modulename h, n, classname h)"
      by (simp only: flt include_rules_of_def)
    also have "\<dots> = count_list (extracted fs h) n"
      by (rule count_list_map_inj) (simp add: inj_def)
    finally show ?thesis .
  qed
  have "filter ?own (tl im) = map (\<lambda>n. (modulename h, n, classname h)) (extracted fs h)"
    using flt by (simp only: im list.sel include_rules_of_def)
  moreover have "count_list im (modulename h, n, classname h)
            = count_list (extracted fs h) n
              + (if (modulename h, n, classname h) = (''QtCore'', ''qnamespace'', ''Qt'')
                 then 1 else 0)" for n
    unfolding im count_list.simps cnt by auto
  ultimately show ?thesis
    by blast
qed


theorem include_rules_per_header_witness:
  "root_dirs demo_fs qt5 = [qt5] \<and> node_at demo_fs qt5 = Some demo_tree \<and> wf_tree demo_tree
   \<and> main_rules demo_fs qt5 =
     Inr (manual_symbols @ [(''QString'', ''QString''), (''QtCore'', ''QtCore'')],
          [(''QtCore'', ''qnamespace'', ''Qt''), (''QtCore'', ''qstring'', ''QString''),
           (''QtCore'', ''qglobal'', ''QtCore'')])
   \<and> QtHeader_init [qt5, ''QtCore'', ''QString''] \<in> set (processed demo_fs qt5)
   \<and> extracted demo_fs (QtHeader_init [qt5, ''QtCore'', ''QString'']) = [''qstring'']
   \<and> filter (\<lambda>r. fst r = modulename (QtHeader_init [qt5, ''QtCore'', ''QString''])
                \<and> snd (snd r) = classname (QtHeader_init [qt5, ''QtCore'', ''QString'']))
        (tl [(''QtCore'', ''qnamespace'', ''Qt''), (''QtCore'', ''qstring'', ''QString''),
             (''QtCore'', ''qglobal'', ''QtCore'')])
       = map (\<lambda>n. (modulename (QtHeader_init [qt5, ''QtCore'', ''QString'']), n,
                    classname (QtHeader_init [qt5, ''QtCore'', ''QString''])))
           (extracted demo_fs (QtHeader_init [qt5, ''QtCore'', ''QString'']))
   \<and> count_list [(''QtCore'', ''qnamespace'', ''Qt''), (''QtCore'', ''qstring'', ''QString''),
                 (''QtCore'', ''qglobal'', ''QtCore'')]
        (modulename (QtHeader_init [qt5, ''QtCore'', ''QString'']), ''qstring'',
         classname (QtHeader_init [qt5, ''QtCore'', ''QString''])) = 1"
proof -
  have wf: "wf_tree demo_tree"
    by code_simp
  have h: "QtHeader_init [qt5, ''QtCore'', ''QString''] \<in> set (processed demo_fs qt5)"
    by code_simp
  have ex: "extracted demo_fs (QtHeader_init [qt5, ''QtCore'', ''QString'']) = [''qstring'']"
    by code_simp
  have names: "modulename (QtHeader_init [qt5, ''QtCore'', ''QString'']) = ''QtCore''"
    "classname (QtHeader_init [qt5, ''QtCore'', ''QString'']) = ''QString''"
    by code_simp+
  have one: "root_dirs demo_fs qt5 = [qt5]"
    by code_simp
  have root: "node_at demo_fs qt5 = Some demo_tree"
    by (simp add: demo_fs_def single_root_def)
  from include_rules_per_header [OF one root wf demo_fs_rules h] one root wf demo_fs_rules h ex
  show ?thesis
    by (simp add: names)
qed

section \<open>The serialized document\<close>

lemma foldl_append_symbol:
  "foldl append_symbol root sm = root @ map spec_symbol_line sm"
proof (induction sm arbitrary: root)
  case Nil
  show ?case by simp
next
  case (Cons r sm)
  have "append_symbol root r = root @ [spec_symbol_line r]"
    by (cases r)
       (simp add: append_symbol_def spec_symbol_line_def jsonline_def quoted_def
          encode_basestring_ascii_def dquote_def backslash_def newline_def escape_char_def)
  then show ?case using Cons.IH by simp
qed

lemma foldl_append_include:
  "foldl append_include root im = root @ map spec_include_line im"
proof (induction im arbitrary: root)
  case Nil
  show ?case by simp
next
  case (Cons r im)
  have "append_include root r = root @ [spec_include_line r]"
    by (cases r)
       (simp add: append_include_def spec_include_line_def jsonline_def quoted_def
          encode_basestring_ascii_def dquote_def backslash_def newline_def escape_char_def)
  then show ?case using Cons.IH by simp
qed

lemma build_imp_lines_closed:
  "build_imp_lines sm im =
     ''['' @ [newline]
       @ str_join ('','' @ [newline]) (map spec_symbol_line sm @ map spec_include_line im)
       @ [newline] @ '']'' @ [newline]"
  by (simp add: build_imp_lines_def foldl_append_symbol foldl_append_include)

lemma hexdigit_no_newline: "hexdigit n \<noteq> newline"
proof -
  have "n mod 16 < length ''0123456789abcdef''" by simp
  then have "hexdigit n \<in> set ''0123456789abcdef''"
    unfolding hexdigit_def by (rule nth_mem)
  then show ?thesis by (auto simp: newline_def)
qed

lemma escape_char_no_newline: "newline \<notin> set (escape_char c)"
proof -
  have lit: "backslash \<noteq> newline" "dquote \<noteq> newline" "CHR ''b'' \<noteq> newline"
    "CHR ''f'' \<noteq> newline" "CHR ''n'' \<noteq> newline" "CHR ''r'' \<noteq> newline"
    "CHR ''t'' \<noteq> newline" "CHR ''u'' \<noteq> newline"
    by (simp_all add: newline_def backslash_def dquote_def)
  have printable: "c \<noteq> newline" if "(0x20::nat) \<le> of_char c"
    using that by (auto simp: newline_def)
  have hex: "newline \<notin> set (hex4 n)" for n
    using hexdigit_no_newline [of n] hexdigit_no_newline [of "n div 16"]
      hexdigit_no_newline [of "n div 256"] hexdigit_no_newline [of "n div 4096"]
    by (simp add: hex4_def eq_commute)
  show ?thesis
    unfolding escape_char_def
    using lit printable hex [of "of_char c"] by (simp add: eq_commute)
qed

lemma encode_no_newline: "newline \<notin> set (encode_basestring_ascii s)"
  using escape_char_no_newline
  by (auto simp: encode_basestring_ascii_def newline_def dquote_def)

lemma spec_symbol_line_no_newline: "newline \<notin> set (spec_symbol_line r)"
  using encode_no_newline
  by (auto simp: spec_symbol_line_def quoted_def newline_def dquote_def)

lemma spec_include_line_no_newline: "newline \<notin> set (spec_include_line r)"
  using encode_no_newline
  by (auto simp: spec_include_line_def quoted_def newline_def dquote_def)

lemma OUTFILEHDR_no_newline: "newline \<notin> set OUTFILEHDR"
  by (simp add: OUTFILEHDR_def newline_def)

lemma takeWhile_first_line: "c \<notin> set l \<Longrightarrow> takeWhile (\<lambda>x. x \<noteq> c) (l @ c # rest) = l"
  by (induction l) auto

lemma main_Inr:
  "main_rules fs qt = Inr (sm, im) \<Longrightarrow> main fs qt = Inr (spec_document sm im)"
  by (simp add: main_def spec_document_def build_imp_lines_closed)


text \<open>
  Claim C6. The serialized text is one array in which every symbol rule comes
  before every include rule, each list in its own order; every rule is one line
  without a line break, the single-key object of the specification; and the
  file \<^verbatim>\<open>main\<close> writes starts with the comment line naming the script.
\<close>

theorem serialized_document:
  "build_imp_lines sm im =
     ''['' @ [newline]
       @ str_join ('','' @ [newline]) (map spec_symbol_line sm @ map spec_include_line im)
       @ [newline] @ '']'' @ [newline]
   \<and> newline \<notin> set (spec_symbol_line sr) \<and> newline \<notin> set (spec_include_line ir)
   \<and> (main_rules fs qt = Inr (sm, im) \<longrightarrow> main fs qt = Inr (spec_document sm im))
   \<and> takeWhile (\<lambda>c. c \<noteq> newline) (spec_document sm im) = OUTFILEHDR
   \<and> OUTFILEHDR
       = ''# Do not edit! This file was generated by the script generate_qt_mappings.py.''"
proof -
  have "takeWhile (\<lambda>c. c \<noteq> newline) (spec_document sm im) = OUTFILEHDR"
    unfolding spec_document_def append_Cons append_Nil
    using OUTFILEHDR_no_newline by (rule takeWhile_first_line)
  moreover have "OUTFILEHDR
       = ''# Do not edit! This file was generated by the script generate_qt_mappings.py.''"
    by (simp add: OUTFILEHDR_def)
  ultimately show ?thesis
    using build_imp_lines_closed spec_symbol_line_no_newline spec_include_line_no_newline main_Inr
    by blast
qed


theorem serialized_document_witness:
  "main_rules demo_fs qt5 =
     Inr (manual_symbols @ [(''QString'', ''QString''), (''QtCore'', ''QtCore'')],
          [(''QtCore'', ''qnamespace'', ''Qt''), (''QtCore'', ''qstring'', ''QString''),
           (''QtCore'', ''qglobal'', ''QtCore'')])
   \<and> main demo_fs qt5 =
       Inr (spec_document (manual_symbols @ [(''QString'', ''QString''), (''QtCore'', ''QtCore'')])
              [(''QtCore'', ''qnamespace'', ''Qt''), (''QtCore'', ''qstring'', ''QString''),
               (''QtCore'', ''qglobal'', ''QtCore'')])"
  using serialized_document
    [of "manual_symbols @ [(''QString'', ''QString''), (''QtCore'', ''QtCore'')]"
        "[(''QtCore'', ''qnamespace'', ''Qt''), (''QtCore'', ''qstring'', ''QString''),
          (''QtCore'', ''qglobal'', ''QtCore'')]" _ _ demo_fs qt5]
    demo_fs_rules
  by blast

section \<open>Reading the serialized document back\<close>

lemma unhexdigit_hexdigit: "unhexdigit (hexdigit k) = Some (k mod 16)"
proof -
  have "list_all (\<lambda>i. unhexdigit (''0123456789abcdef'' ! i) = Some i) [0..<16]"
    by code_simp
  moreover have "k mod 16 \<in> set [0..<16]"
    by simp
  ultimately show ?thesis
    unfolding hexdigit_def list_all_iff by blast
qed

lemma unhex4_hex4: "unhex4 (hexdigit (of_char c div 4096)) (hexdigit (of_char c div 256))
    (hexdigit (of_char c div 16)) (hexdigit (of_char c)) = Some c"
proof -
  define v :: nat where "v = of_char c"
  have small: "v < 256"
    unfolding v_def by (metis of_char_mod_256 mod_less_divisor zero_less_numeral)
  have d1: "v div 4096 = 0" using small by simp
  have d2: "v div 256 = 0" using small by simp
  have "v div 16 < 16" using small by (simp add: less_mult_imp_div_less)
  then have d3: "v div 16 mod 16 = v div 16" by simp
  have n: "v div 4096 mod 16 * 4096 + v div 256 mod 16 * 256 + v div 16 mod 16 * 16
      + v mod 16 = v"
    unfolding d1 d2 d3 by simp
  have "unhex4 (hexdigit (v div 4096)) (hexdigit (v div 256)) (hexdigit (v div 16)) (hexdigit v)
      = Some (char_of v)"
    unfolding unhex4_def unhexdigit_hexdigit prod.case option.case Let_def n
    using small by simp
  then show ?thesis
    by (simp add: v_def)
qed

lemma decode_escape_char:
  "decode_string (escape_char c @ tail) = push_char c (decode_string tail)"
proof -
  consider (bs) "c = backslash" | (dq) "c = dquote" | (b) "c = CHR 0x08" | (f) "c = CHR 0x0C"
    | (n) "c = newline" | (r) "c = CHR 0x0D" | (t) "c = CHR 0x09"
    | (plain) "c \<noteq> backslash" "c \<noteq> dquote" "c \<noteq> CHR 0x08" "c \<noteq> CHR 0x0C" "c \<noteq> newline"
        "c \<noteq> CHR 0x0D" "c \<noteq> CHR 0x09" "(0x20::nat) \<le> of_char c \<and> (of_char c :: nat) \<le> 0x7E"
    | (other) "c \<noteq> backslash" "c \<noteq> dquote" "c \<noteq> CHR 0x08" "c \<noteq> CHR 0x0C" "c \<noteq> newline"
        "c \<noteq> CHR 0x0D" "c \<noteq> CHR 0x09" "\<not> ((0x20::nat) \<le> of_char c \<and> (of_char c :: nat) \<le> 0x7E)"
    by blast
  then show ?thesis
  proof cases
    case bs
    then show ?thesis
      by (simp add: escape_char_def unescape_def backslash_def dquote_def)
  next
    case dq
    then show ?thesis
      by (simp add: escape_char_def unescape_def backslash_def dquote_def)
  next
    case b
    then show ?thesis
      by (simp add: escape_char_def unescape_def backslash_def dquote_def newline_def)
  next
    case f
    then show ?thesis
      by (simp add: escape_char_def unescape_def backslash_def dquote_def newline_def)
  next
    case n
    then show ?thesis
      by (simp add: escape_char_def unescape_def backslash_def dquote_def newline_def)
  next
    case r
    then show ?thesis
      by (simp add: escape_char_def unescape_def backslash_def dquote_def newline_def)
  next
    case t
    then show ?thesis
      by (simp add: escape_char_def unescape_def backslash_def dquote_def newline_def)
  next
    case plain
    then have "escape_char c = [c]"
      by (simp add: escape_char_def)
    then show ?thesis
      using plain(1,2) by simp
  next
    case other
    then have "escape_char c = [backslash, CHR ''u''] @ hex4 (of_char c)"
      by (simp add: escape_char_def)
    then show ?thesis
      using unhex4_hex4 [of c] by (simp add: hex4_def backslash_def dquote_def)
  qed
qed

lemma decode_encoded:
  "decode_string (concat (map escape_char s) @ dquote # rest) = Some (s, rest)"
proof (induction s)
  case Nil
  show ?case by simp
next
  case (Cons c s)
  have "decode_string (escape_char c @ (concat (map escape_char s) @ dquote # rest))
      = push_char c (decode_string (concat (map escape_char s) @ dquote # rest))"
    by (rule decode_escape_char)
  then show ?case
    using Cons.IH by (simp add: push_char_def)
qed

lemma json_string_encode:
  "json_string (encode_basestring_ascii s @ rest) = Some (s, rest)"
  using decode_encoded [of s rest]
  by (simp add: json_string_def encode_basestring_ascii_def)

lemma json_string_quoted:
  "\<forall>c \<in> set s. escape_char c = [c] \<Longrightarrow> json_string (quoted s @ rest) = Some (s, rest)"
proof -
  assume "\<forall>c \<in> set s. escape_char c = [c]"
  then have "concat (map escape_char s) = s"
    by (induction s) simp_all
  then have "quoted s = encode_basestring_ascii s"
    by (simp add: quoted_def encode_basestring_ascii_def)
  then show ?thesis
    by (simp add: json_string_encode)
qed

lemma dropWhile_first_line: "c \<notin> set l \<Longrightarrow> dropWhile (\<lambda>x. x \<noteq> c) (l @ c # rest) = c # rest"
  by (induction l) auto

lemma map_from_pattern_parts:
  "map_from_pattern m n = pattern_head @ m @ ''/)?'' @ n @ pattern_tail"
  by (simp add: map_from_pattern_def pattern_head_def pattern_tail_def)

lemma parse_pattern_map_from:
  assumes "CHR ''/'' \<notin> set m"
  shows "parse_pattern (map_from_pattern m n) = Some (m, n)"
proof -
  have tw: "takeWhile (\<lambda>c. c \<noteq> CHR ''/'') (m @ ''/)?'' @ n @ pattern_tail) = m"
    using assms by (simp add: takeWhile_first_line)
  have dw: "dropWhile (\<lambda>c. c \<noteq> CHR ''/'') (m @ ''/)?'' @ n @ pattern_tail)
      = ''/)?'' @ n @ pattern_tail"
    using assms by (simp add: dropWhile_first_line)
  have sp: "strip_prefix ''/)?'' (''/)?'' @ n @ pattern_tail) = Some (n @ pattern_tail)"
    by (rule strip_prefix_append)
  show ?thesis
    unfolding parse_pattern_def map_from_pattern_parts strip_prefix_append
    by (simp only: bind.simps tw dw sp) simp
qed

lemma strip_angle_wrapped: "strip_angle (''<'' @ h @ ''>'') = Some h"
  by (simp add: strip_angle_def)

lemma plain_keywords:
  "\<forall>c \<in> set ''symbol''. escape_char c = [c]"
  "\<forall>c \<in> set ''include''. escape_char c = [c]"
  "\<forall>c \<in> set ''private''. escape_char c = [c]"
  "\<forall>c \<in> set ''public''. escape_char c = [c]"
  by (simp_all add: escape_char_def backslash_def dquote_def newline_def)

lemmas json_string_keyword = plain_keywords [THEN json_string_quoted]

lemma parse_object_line:
  assumes t: "t = [] \<or> t = '',''" and key: "\<forall>c \<in> set key. escape_char c = [c]"
  shows "parse_line (''  {'' @ quoted key @ '': ['' @ encode_basestring_ascii a @ '', ''
           @ quoted ''private'' @ '', '' @ encode_basestring_ascii (''<'' @ h @ ''>'') @ '', ''
           @ quoted ''public'' @ '']}'' @ t)
         = make_rule key a h"
proof -
  note k = json_string_quoted [OF key]
  have s1: "strip_prefix ''  {'' (''  {'' @ x) = Some x" for x
    by (rule strip_prefix_append)
  have s2: "strip_prefix '': ['' ('': ['' @ x) = Some x" for x
    by (rule strip_prefix_append)
  have s3: "strip_prefix '', '' ('', '' @ x) = Some x" for x
    by (rule strip_prefix_append)
  have s4: "strip_prefix '']}'' ('']}'' @ x) = Some x" for x
    by (rule strip_prefix_append)
  show ?thesis
    unfolding parse_line_def
    by (simp only: s1 s2 s3 s4 k json_string_keyword json_string_encode bind.simps prod.case
          strip_angle_wrapped)
       (use t in auto)
qed

lemma parse_rule_line:
  assumes "t = [] \<or> t = '',''" and "no_slash_in_module r"
  shows "parse_line (rule_line r @ t) = Some r"
proof (cases r)
  case (SymbolRule x)
  have "parse_line (spec_symbol_line x @ t) = make_rule ''symbol'' (fst x) (snd x)"
    unfolding spec_symbol_line_def append_assoc
    by (rule parse_object_line [OF assms(1) plain_keywords(1)])
  then show ?thesis
    using SymbolRule by (simp add: make_rule_def)
next
  case (IncludeRule x)
  have "parse_line (spec_include_line x @ t)
      = make_rule ''include'' (map_from_pattern (fst x) (fst (snd x))) (snd (snd x))"
    unfolding spec_include_line_def append_assoc
    by (rule parse_object_line [OF assms(1) plain_keywords(2)])
  moreover have "parse_pattern (map_from_pattern (fst x) (fst (snd x))) = Some (fst x, fst (snd x))"
    using assms(2) IncludeRule by (simp add: parse_pattern_map_from)
  ultimately show ?thesis
    using IncludeRule by (simp add: make_rule_def)
qed

lemma rule_line_no_newline: "newline \<notin> set (rule_line r)"
  by (cases r) (simp_all add: spec_symbol_line_no_newline spec_include_line_no_newline)

lemma rule_line_not_empty: "rule_line r \<noteq> []"
  by (cases r) (simp_all add: spec_symbol_line_def spec_include_line_def)

lemma split_lines_line:
  "newline \<notin> set l \<Longrightarrow> split_lines (l @ newline # rest) = l # split_lines rest"
  by (induction l) auto

lemma split_lines_joined:
  "ls \<noteq> [] \<Longrightarrow> \<forall>l \<in> set ls. newline \<notin> set l \<Longrightarrow>
   split_lines (str_join ('','' @ [newline]) ls @ newline # rest)
     = map (\<lambda>l. l @ '','') (butlast ls) @ last ls # split_lines rest"
proof (induction "'','' @ [newline]" ls rule: str_join.induct)
  case 1
  then show ?case by simp
next
  case (2 x)
  then show ?case by (simp add: split_lines_line)
next
  case (3 x y ys)
  have nl: "newline \<notin> set (x @ '','')"
    using 3(3) by (simp add: newline_def)
  have "split_lines (str_join ('','' @ [newline]) (x # y # ys) @ newline # rest)
      = split_lines ((x @ '','') @ newline # (str_join ('','' @ [newline]) (y # ys) @ newline # rest))"
    by simp
  also have "\<dots> = (x @ '','') # split_lines (str_join ('','' @ [newline]) (y # ys) @ newline # rest)"
    using nl by (rule split_lines_line)
  finally show ?case
    using 3 by simp
qed

lemma split_lines_closing: "split_lines ('']'' @ [newline]) = ['']'', []]"
  by (simp add: newline_def)

lemma those_map_Some: "those (map Some xs) = Some xs"
  by (induction xs) simp_all

lemma symbol_rules_append:
  "symbol_rules (map SymbolRule sm @ map IncludeRule im) = sm"
proof (induction sm)
  case Nil
  show ?case by (induction im) simp_all
next
  case (Cons a sm)
  then show ?case by simp
qed

lemma include_rules_append:
  "include_rules (map SymbolRule sm @ map IncludeRule im) = im"
proof (induction sm)
  case Nil
  show ?case by (induction im) simp_all
next
  case (Cons a sm)
  then show ?case by simp
qed

lemma parse_lines_of_rules:
  assumes "rs \<noteq> []" and "\<forall>r \<in> set rs. no_slash_in_module r"
  shows "map parse_line (filter (\<lambda>l. l \<noteq> [])
           (map (\<lambda>l. l @ '','') (butlast (map rule_line rs)) @ [last (map rule_line rs)]))
         = map Some rs"
proof -
  have nonempty: "filter (\<lambda>l. l \<noteq> [])
           (map (\<lambda>l. l @ '','') (butlast (map rule_line rs)) @ [last (map rule_line rs)])
      = map (\<lambda>r. rule_line r @ '','') (butlast rs) @ [rule_line (last rs)]"
    using assms(1) by (simp add: map_butlast [symmetric] last_map rule_line_not_empty comp_def)
  have "map parse_line (map (\<lambda>r. rule_line r @ '','') (butlast rs) @ [rule_line (last rs)])
      = map Some (butlast rs) @ [Some (last rs)]"
  proof -
    have "parse_line (rule_line r @ '','') = Some r" if "r \<in> set (butlast rs)" for r
      using assms(2) in_set_butlastD [OF that] by (simp add: parse_rule_line)
    moreover have "parse_line (rule_line (last rs)) = Some (last rs)"
      using assms parse_rule_line [of "[]" "last rs"] by simp
    ultimately show ?thesis by simp
  qed
  also have "\<dots> = map Some (butlast rs @ [last rs])"
    by simp
  also have "\<dots> = map Some rs"
    using assms(1) by simp
  finally show ?thesis
    by (simp only: nonempty)
qed

lemma parse_document_of_rules:
  assumes "\<forall>r \<in> set rs. no_slash_in_module r"
  shows "parse_document (''['' @ [newline] @ str_join ('','' @ [newline]) (map rule_line rs)
            @ [newline] @ '']'' @ [newline])
         = Some (symbol_rules rs, include_rules rs)"
proof (cases "rs = []")
  case True
  then show ?thesis
    by (simp add: parse_document_def newline_def)
next
  case False
  have nl: "\<forall>l \<in> set (map rule_line rs). newline \<notin> set l"
    by (simp add: rule_line_no_newline)
  have bracket: "newline \<notin> set ''[''"
    by (simp add: newline_def)
  have "split_lines (''['' @ newline # (str_join ('','' @ [newline]) (map rule_line rs)
            @ newline # ('']'' @ [newline])))
      = ''['' # split_lines (str_join ('','' @ [newline]) (map rule_line rs)
            @ newline # ('']'' @ [newline]))"
    using bracket by (rule split_lines_line)
  also have "split_lines (str_join ('','' @ [newline]) (map rule_line rs)
            @ newline # ('']'' @ [newline]))
      = map (\<lambda>l. l @ '','') (butlast (map rule_line rs))
          @ last (map rule_line rs) # split_lines ('']'' @ [newline])"
    using False nl by (intro split_lines_joined) simp_all
  finally have "split_lines (''['' @ newline # (str_join ('','' @ [newline]) (map rule_line rs)
            @ newline # ('']'' @ [newline])))
      = ''['' # map (\<lambda>l. l @ '','') (butlast (map rule_line rs))
          @ last (map rule_line rs) # ['']'', []]"
    by (simp only: split_lines_closing)
  then have sl: "split_lines (''['' @ [newline] @ str_join ('','' @ [newline]) (map rule_line rs)
            @ [newline] @ '']'' @ [newline])
      = ''['' # (map (\<lambda>l. l @ '','') (butlast (map rule_line rs))
          @ [last (map rule_line rs)]) @ ['']'', []]"
    by simp
  show ?thesis
    unfolding parse_document_def sl
    using parse_lines_of_rules [OF False assms]
    by (simp add: butlast_append those_map_Some)
qed

lemma lines_of_rules:
  "map spec_symbol_line sm @ map spec_include_line im
     = map rule_line (map SymbolRule sm @ map IncludeRule im)"
  by simp

lemma parse_build_imp_lines:
  assumes "\<forall>r \<in> set im. CHR ''/'' \<notin> set (fst r)"
  shows "parse_document (build_imp_lines sm im) = Some (sm, im)"
proof -
  have "\<forall>r \<in> set (map SymbolRule sm @ map IncludeRule im). no_slash_in_module r"
    using assms by auto
  from parse_document_of_rules [OF this] show ?thesis
    unfolding build_imp_lines_closed lines_of_rules
    by (simp only: symbol_rules_append include_rules_append)
qed

lemma processed_modulename:
  assumes "h \<in> set (processed fs qt)"
  shows "\<exists>d root. d \<in> set (root_dirs fs qt) \<and> node_at fs d = Some root
           \<and> modulename h \<in> fst ` set (listdir root)"
proof -
  from assms obtain p where p: "p \<in> set (glob fs qt)" and h: "h = QtHeader_init p"
    by (auto simp: processed_def candidates_def)
  from glob_path [OF p] obtain d root m n where mn: "p = [d, m, n]"
    and d: "d \<in> set (root_dirs fs qt)" and root: "node_at fs d = Some root"
    and g: "[m, n] \<in> set (glob_below root)"
    by blast
  from g have m: "m \<in> set (glob1 root pattern_dir True)"
    unfolding glob_below_iff by blast
  from m obtain x where "(m, x) \<in> set (listdir root)"
    unfolding glob1_iff by blast
  then have "m \<in> fst ` set (listdir root)" by force
  moreover have "modulename h = m"
    using header_key_init [of d m n] by (simp add: h mn header_key_def)
  ultimately show ?thesis using d root by blast
qed

lemma main_rules_slash_free:
  assumes "slash_free_modules fs qt" and "main_rules fs qt = Inr (sm, im)"
  shows "\<forall>r \<in> set im. CHR ''/'' \<notin> set (fst r)"
proof
  fix r assume r: "r \<in> set im"
  from main_rules_Inr [OF assms(2)] r
  consider "r \<in> set manual_includes"
    | h where "h \<in> set (processed fs qt)" "r \<in> set (include_rules_of fs h)"
    by auto
  then show "CHR ''/'' \<notin> set (fst r)"
  proof cases
    case 1
    then show ?thesis by (simp add: manual_includes_def)
  next
    case 2
    then have "fst r = modulename h"
      by (auto simp: include_rules_of_def)
    moreover from processed_modulename [OF 2(1)] obtain d root
      where "d \<in> set (root_dirs fs qt)" "node_at fs d = Some root"
        "modulename h \<in> fst ` set (listdir root)"
      by blast
    ultimately show ?thesis
      using assms(1) by (force simp: slash_free_modules_def list_all_iff)
  qed
qed


text \<open>
  Claim C8, as stated: for every pair of rule lists, parsing the serialized
  document gives the lists back. Module name and header name are put into the
  match pattern as they are, so two different include rules can have the same
  pattern and the same document; no parser gives both back.
\<close>

theorem module_slash_ambiguous:
  "build_imp_lines [] [(''a/)?b'', ''c'', ''H'')] = build_imp_lines [] [(''a'', ''b/)?c'', ''H'')]
   \<and> (''a/)?b'', ''c'', ''H'') \<noteq> (''a'', ''b/)?c'', ''H'')
   \<and> parse_document (build_imp_lines [] [(''a/)?b'', ''c'', ''H'')])
       \<noteq> Some ([], [(''a/)?b'', ''c'', ''H'')])"
  by code_simp

text \<open>
  Claim C8, amended. For every pair of rule lists in which no module name of an
  include rule contains a slash, parsing the serialized document gives the two
  lists back; these are all the rule lists \<^verbatim>\<open>main\<close> serializes, module names being
  names of directories.
\<close>

theorem parse_after_serialize:
  "((\<forall>r \<in> set im. CHR ''/'' \<notin> set (fst r))
      \<longrightarrow> parse_document (build_imp_lines sm im) = Some (sm, im))
   \<and> (slash_free_modules fs qt \<and> main_rules fs qt = Inr (sm', im')
      \<longrightarrow> parse_document (build_imp_lines sm' im') = Some (sm', im'))"
  using parse_build_imp_lines main_rules_slash_free by blast


theorem parse_after_serialize_witness:
  "CHR ''/'' \<notin> set (fst (''QtCore'', ''qstring'', ''QString''))
   \<and> parse_document (build_imp_lines [(''QString'', ''QString'')]
                        [(''QtCore'', ''qstring'', ''QString'')])
       = Some ([(''QString'', ''QString'')], [(''QtCore'', ''qstring'', ''QString'')])
   \<and> slash_free_modules demo_fs qt5
   \<and> main_rules demo_fs qt5 =
       Inr (manual_symbols @ [(''QString'', ''QString''), (''QtCore'', ''QtCore'')],
            [(''QtCore'', ''qnamespace'', ''Qt''), (''QtCore'', ''qstring'', ''QString''),
             (''QtCore'', ''qglobal'', ''QtCore'')])
   \<and> parse_document
         (build_imp_lines (manual_symbols @ [(''QString'', ''QString''), (''QtCore'', ''QtCore'')])
            [(''QtCore'', ''qnamespace'', ''Qt''), (''QtCore'', ''qstring'', ''QString''),
             (''QtCore'', ''qglobal'', ''QtCore'')])
       = Some (manual_symbols @ [(''QString'', ''QString''), (''QtCore'', ''QtCore'')],
               [(''QtCore'', ''qnamespace'', ''Qt''), (''QtCore'', ''qstring'', ''QString''),
                (''QtCore'', ''qglobal'', ''QtCore'')])"
proof -
  have free: "\<forall>r \<in> set [(''QtCore'', ''qstring'', ''QString'')]. CHR ''/'' \<notin> set (fst r)"
    by simp
  have names: "slash_free_modules demo_fs qt5"
    by code_simp
  from parse_after_serialize
      [of "[(''QtCore'', ''qstring'', ''QString'')]" "[(''QString'', ''QString'')]" demo_fs qt5
          "manual_symbols @ [(''QString'', ''QString''), (''QtCore'', ''QtCore'')]"
          "[(''QtCore'', ''qnamespace'', ''Qt''), (''QtCore'', ''qstring'', ''QString''),
            (''QtCore'', ''qglobal'', ''QtCore'')]"]
    free names demo_fs_rules
  show ?thesis
    by simp
qed

end
